theory Spec2Isabelle
  imports Main
begin

section \<open>Data model of package ffmpeg\<close>

text \<open>
  Strings are byte strings (\<open>char list\<close>), as Go's \<open>string\<close> is. An \<open>Options\<close> value is
  used by the package only through \<open>GetStrArguments()\<close>, so an option-set is represented
  by the token list that call returns. Pipe handles and the context are opaque values;
  Go's \<open>nil\<close> interface value is \<open>None\<close>. The field \<open>output\<close> is named \<open>outputs\<close>
  here, \<open>output\<close> being reserved.
\<close>

record Metadata =
  Duration :: string
  Infos :: "string \<rightharpoonup> string"

text \<open>
  The package builds its errors with \<open>errors.New\<close> and \<open>fmt.Errorf\<close>; the model keeps
  one constructor per place an error is made. The five errors of \<open>validate\<close> and the
  missing probe binary are the configuration errors.
\<close>

datatype config_error =
    BinaryPathNotFound
  | MissingInput
  | MissingOutput
  | CountMismatch
  | EmptyOutput nat
  | ProbeBinaryNotFound

datatype error =
    ConfigurationError config_error
  | ProbeError
  | DecodeError
  | ObserverError string
  | StderrPipeError
  | LaunchError
  | ExecutionError
  | IndexPanic
  | NilPanic

record Config =
  FfmpegBinPath :: string
  FfprobeBinPath :: string
  ProgressEnabled :: bool
  Verbose :: bool
  Env :: "string list"
  Dir :: string
  OnMetadata :: "(Metadata \<Rightarrow> error option) option"

record ('h, 'c) Transcoder =
  config :: Config
  input :: string
  outputs :: "string list"
  options :: "string list list"
  metadata :: "Metadata option"
  inputPipeReader :: "'h option"
  outputPipeReader :: "'h option"
  inputPipeWriter :: "'h option"
  outputPipeWriter :: "'h option"
  commandContext :: "'c option"

section \<open>Fluent setters\<close>

definition Input :: "string \<Rightarrow> ('h, 'c) Transcoder \<Rightarrow> ('h, 'c) Transcoder" where
  "Input arg t = t\<lparr>input := arg\<rparr>"

definition Output :: "string \<Rightarrow> ('h, 'c) Transcoder \<Rightarrow> ('h, 'c) Transcoder" where
  "Output arg t = t\<lparr>outputs := outputs t @ [arg]\<rparr>"

definition InputPipe ::
  "'h option \<Rightarrow> 'h option \<Rightarrow> ('h, 'c) Transcoder \<Rightarrow> ('h, 'c) Transcoder" where
  "InputPipe w r t =
     (if length (input t) = 0 then t\<lparr>inputPipeWriter := w, inputPipeReader := r\<rparr> else t)"

definition OutputPipe ::
  "'h option \<Rightarrow> 'h option \<Rightarrow> ('h, 'c) Transcoder \<Rightarrow> ('h, 'c) Transcoder" where
  "OutputPipe w r t =
     (if length (outputs t) = 0 then t\<lparr>outputPipeWriter := w, outputPipeReader := r\<rparr> else t)"

definition WithOptions :: "string list \<Rightarrow> ('h, 'c) Transcoder \<Rightarrow> ('h, 'c) Transcoder" where
  "WithOptions opts t = t\<lparr>options := [opts]\<rparr>"

definition WithAdditionalOptions ::
  "string list \<Rightarrow> ('h, 'c) Transcoder \<Rightarrow> ('h, 'c) Transcoder" where
  "WithAdditionalOptions opts t = t\<lparr>options := options t @ [opts]\<rparr>"

definition WithContext :: "'c option \<Rightarrow> ('h, 'c) Transcoder \<Rightarrow> ('h, 'c) Transcoder" where
  "WithContext ctx t = t\<lparr>commandContext := ctx\<rparr>"

section \<open>Argument assembly in Start\<close>

text \<open>
  The inner loop \<open>for i := index; i < len(t.options); i++\<close>, appending
  \<open>arguments[i]\<close> to \<open>args\<close>. \<open>arguments\<close> has the length of \<open>t.options\<close>, so the
  read is always in range.
\<close>

function flush_options :: "nat \<Rightarrow> string list list \<Rightarrow> string list \<Rightarrow> string list" where
  "flush_options i arguments args =
     (if i < length arguments then flush_options (Suc i) arguments (args @ arguments ! i)
      else args)"
  by pat_completeness auto
termination
  by (relation "measure (\<lambda>(i, arguments, args). length arguments - i)") auto

declare flush_options.simps [simp del]

text \<open>
  The loop \<open>for index, out := range t.output\<close>: \<open>index\<close> counts the outputs already
  handled, the list holds the outputs still to come. Reading \<open>arguments[index]\<close> out of
  range panics in Go; the model returns \<open>None\<close> there.
\<close>

fun output_loop ::
  "nat \<Rightarrow> string list \<Rightarrow> nat \<Rightarrow> string list list \<Rightarrow> string list \<Rightarrow> string list option" where
  "output_loop index [] outputLength arguments args = Some args"
| "output_loop index (out # rest) outputLength arguments args =
     (if int index = int outputLength - 1 \<and> outputLength < length arguments
      then output_loop (Suc index) rest outputLength arguments
             (flush_options index arguments args @ [out])
      else if index < length arguments
      then output_loop (Suc index) rest outputLength arguments
             (args @ arguments ! index @ [out])
      else None)"

definition build_args ::
  "string \<Rightarrow> string list \<Rightarrow> string list \<Rightarrow> string list list \<Rightarrow> string list option" where
  "build_args inp globals outs opts =
     (let args = [''-i'', inp] @ globals;
          outputLength = length outs;
          optionsLength = length opts
      in if outputLength = 1 \<and> optionsLength = 0 then Some (args @ [outs ! 0])
         else output_loop 0 outs outputLength opts args)"

section \<open>validate\<close>

text \<open>The loop \<open>for index, output := range t.output\<close> of \<open>validate\<close>.\<close>

fun empty_output :: "nat \<Rightarrow> string list \<Rightarrow> error option" where
  "empty_output index [] = None"
| "empty_output index (out # rest) =
     (if out = [] then Some (ConfigurationError (EmptyOutput index))
      else empty_output (Suc index) rest)"

definition validate :: "('h, 'c) Transcoder \<Rightarrow> error option" where
  "validate t =
     (if FfmpegBinPath (config t) = [] then Some (ConfigurationError BinaryPathNotFound)
      else if input t = [] then Some (ConfigurationError MissingInput)
      else let outputLength = length (outputs t)
           in if outputLength = 0 then Some (ConfigurationError MissingOutput)
              else if outputLength > length (options t) \<and> outputLength \<noteq> 1
              then Some (ConfigurationError CountMismatch)
              else empty_output 0 (outputs t))"

section \<open>Byte and string helpers of the Go library\<close>

abbreviation LF :: char where "LF \<equiv> CHR 0x0A"
abbreviation CR :: char where "CR \<equiv> CHR 0x0D"
abbreviation SP :: char where "SP \<equiv> CHR 0x20"

text \<open>\<open>bytes.IndexByte\<close>: the index of the first occurrence, or \<open>-1\<close>.\<close>

fun IndexByte :: "string \<Rightarrow> char \<Rightarrow> int" where
  "IndexByte [] c = - 1"
| "IndexByte (x # xs) c =
     (if x = c then 0 else (let i = IndexByte xs c in if i < 0 then - 1 else i + 1))"

definition HasPrefix :: "string \<Rightarrow> string \<Rightarrow> bool" where
  "HasPrefix s p = (length s \<ge> length p \<and> take (length p) s = p)"

fun Contains :: "string \<Rightarrow> string \<Rightarrow> bool" where
  "Contains [] sub = (sub = [])"
| "Contains (c # cs) sub = (HasPrefix (c # cs) sub \<or> Contains cs sub)"

text \<open>
  White space. \<open>space_runes\<close> lists the UTF-8 encodings of the characters for which
  \<open>unicode.IsSpace\<close> holds (used by \<open>strings.Fields\<close> and \<open>strings.TrimSpace\<close>): the six
  ASCII ones, U+0085, U+00A0, U+1680, U+2000 to U+200A, U+2028, U+2029, U+202F, U+205F
  and U+3000. None of them begins with a continuation byte, so a string holds a space
  character at a byte position exactly when one of these encodings begins there.
  \<open>is_regex_space\<close> is the class \<open>\s\<close> of package regexp, which is ASCII and leaves the
  vertical tab out.
\<close>

definition space_runes :: "string list" where
  "space_runes =
     [[CHR 0x09], [LF], [CHR 0x0B], [CHR 0x0C], [CR], [SP],
      [CHR 0xC2, CHR 0x85], [CHR 0xC2, CHR 0xA0],
      [CHR 0xE1, CHR 0x9A, CHR 0x80],
      [CHR 0xE2, CHR 0x80, CHR 0x80], [CHR 0xE2, CHR 0x80, CHR 0x81],
      [CHR 0xE2, CHR 0x80, CHR 0x82], [CHR 0xE2, CHR 0x80, CHR 0x83],
      [CHR 0xE2, CHR 0x80, CHR 0x84], [CHR 0xE2, CHR 0x80, CHR 0x85],
      [CHR 0xE2, CHR 0x80, CHR 0x86], [CHR 0xE2, CHR 0x80, CHR 0x87],
      [CHR 0xE2, CHR 0x80, CHR 0x88], [CHR 0xE2, CHR 0x80, CHR 0x89],
      [CHR 0xE2, CHR 0x80, CHR 0x8A],
      [CHR 0xE2, CHR 0x80, CHR 0xA8], [CHR 0xE2, CHR 0x80, CHR 0xA9],
      [CHR 0xE2, CHR 0x80, CHR 0xAF], [CHR 0xE2, CHR 0x81, CHR 0x9F],
      [CHR 0xE3, CHR 0x80, CHR 0x80]]"

definition is_regex_space :: "char \<Rightarrow> bool" where
  "is_regex_space c = (c = CHR 0x09 \<or> c = LF \<or> c = CHR 0x0C \<or> c = CR \<or> c = SP)"

text \<open>
  \<open>strip_prefix_of ps s\<close> takes the first of the byte sequences \<open>ps\<close> that \<open>s\<close> begins
  with off \<open>s\<close>; \<open>trim_left_of ps s\<close> does so as long as one is there.
\<close>

fun strip_prefix_of :: "string list \<Rightarrow> string \<Rightarrow> string option" where
  "strip_prefix_of [] s = None"
| "strip_prefix_of (p # ps) s =
     (if p \<noteq> [] \<and> HasPrefix s p then Some (drop (length p) s) else strip_prefix_of ps s)"

lemma strip_prefix_of_shorter: "strip_prefix_of ps s = Some r \<Longrightarrow> length r < length s"
proof (induction ps)
  case Nil
  then show ?case by simp
next
  case (Cons p ps)
  show ?case
  proof (cases "p \<noteq> [] \<and> HasPrefix s p")
    case True
    then have "p \<noteq> []" "length p \<le> length s" by (auto simp: HasPrefix_def)
    moreover from True Cons.prems have "r = drop (length p) s" by simp
    ultimately show ?thesis by (cases p) auto
  next
    case False
    with Cons show ?thesis by auto
  qed
qed

function trim_left_of :: "string list \<Rightarrow> string \<Rightarrow> string" where
  "trim_left_of ps [] = []"
| "trim_left_of ps (c # cs) =
     (case strip_prefix_of ps (c # cs) of
        None \<Rightarrow> c # cs
      | Some r \<Rightarrow> trim_left_of ps r)"
  by pat_completeness auto
termination
  by (relation "measure (\<lambda>(ps, s). length s)") (auto dest: strip_prefix_of_shorter)

definition TrimLeft :: "string \<Rightarrow> char \<Rightarrow> string" where
  "TrimLeft s c = dropWhile (\<lambda>x. x = c) s"

definition TrimRight :: "string \<Rightarrow> char \<Rightarrow> string" where
  "TrimRight s c = rev (dropWhile (\<lambda>x. x = c) (rev s))"

text \<open>
  \<open>strings.TrimSpace\<close>: the space characters at the front are taken off, then those at
  the end (the encodings read backwards from the end of the string).
\<close>

definition TrimSpace :: "string \<Rightarrow> string" where
  "TrimSpace s = rev (trim_left_of (map rev space_runes) (rev (trim_left_of space_runes s)))"

text \<open>\<open>strings.SplitN(s, sep, 2)\<close> for a one-byte separator.\<close>

definition SplitN2 :: "string \<Rightarrow> char \<Rightarrow> string list" where
  "SplitN2 s sep =
     (let i = IndexByte s sep
      in if i < 0 then [s] else [take (nat i) s, drop (nat i + 1) s])"

text \<open>\<open>strings.Split(s, sep)\<close> for a one-byte separator: one more part than separators.\<close>

fun Split :: "string \<Rightarrow> char \<Rightarrow> string list" where
  "Split [] sep = [[]]"
| "Split (x # xs) sep =
     (if x = sep then [] # Split xs sep
      else (case Split xs sep of [] \<Rightarrow> [[x]] | p # ps \<Rightarrow> (x # p) # ps))"

text \<open>
  \<open>strings.Fields\<close>: the maximal runs of bytes between space characters; \<open>cur\<close> is the
  run being read.
\<close>

function fields_from :: "string \<Rightarrow> string \<Rightarrow> string list" where
  "fields_from cur [] = (if cur = [] then [] else [cur])"
| "fields_from cur (c # cs) =
     (case strip_prefix_of space_runes (c # cs) of
        Some r \<Rightarrow> (if cur = [] then fields_from [] r else cur # fields_from [] r)
      | None \<Rightarrow> fields_from (cur @ [c]) cs)"
  by pat_completeness auto
termination
  by (relation "measure (\<lambda>(cur, s). length s)") (auto dest: strip_prefix_of_shorter)

definition Fields :: "string \<Rightarrow> string list" where
  "Fields s = fields_from [] s"

text \<open>
  \<open>regexp.MustCompile(`=\s+`).ReplaceAllString(line, `=`)\<close>: every \<open>=\<close> loses the white
  space that follows it.
\<close>

function drop_space_after_eq :: "string \<Rightarrow> string" where
  "drop_space_after_eq [] = []"
| "drop_space_after_eq (c # cs) =
     (if c = CHR ''='' then c # drop_space_after_eq (dropWhile is_regex_space cs)
      else c # drop_space_after_eq cs)"
  by pat_completeness auto
termination
  by (relation "measure length") (auto simp: length_dropWhile_le less_Suc_eq_le)

section \<open>The tokenizer of progress\<close>

text \<open>
  The split function given to the scanner in \<open>progress\<close>: the advance and the token
  (\<open>None\<close> is Go's \<open>nil\<close> token, a request for more data). Its error result is always
  \<open>nil\<close> and is left out.
\<close>

definition split :: "string \<Rightarrow> bool \<Rightarrow> nat \<times> string option" where
  "split data atEOF =
     (if atEOF \<and> length data = 0 then (0, None)
      else let i = IndexByte data LF
           in if i \<ge> 0 then (nat (i + 1), Some (take (nat i) data))
              else let i = IndexByte data CR
                   in if i \<ge> 0 then (nat (i + 1), Some (take (nat i) data))
                      else if atEOF then (length data, Some data)
                      else (0, None))"

text \<open>
  \<open>bufio.Scanner\<close>, as \<open>progress\<close> sets it up: a buffer of 2 bytes that doubles up to
  \<open>bufio.MaxScanTokenSize\<close>. \<open>buf\<close> holds the bytes \<open>s.buf[s.start:s.end]\<close>, \<open>buf_len\<close>
  is \<open>len(s.buf)\<close>. The reader is the list of the chunks still to come: a \<open>Read\<close> into
  \<open>n\<close> free bytes takes at most \<open>n\<close> bytes of the first chunk, an empty chunk is a read of
  no byte, and the empty list is the end of the stream. The checks of a negative or too
  large advance and of a token without progress at the end of the stream are left out:
  \<open>split\<close> advances by at least one and by at most the buffered bytes whenever it
  returns a token (\<open>split_advance\<close> below). So is the guard against the overflow of
  the doubled size: the buffer never grows beyond \<open>maxTokenSize\<close>.
\<close>

datatype scan_error = EOF | ErrTooLong | ErrNoProgress

record Scanner =
  src :: "string list"
  buf :: string
  start :: nat
  buf_len :: nat
  maxTokenSize :: nat
  scan_err :: "scan_error option"

abbreviation buf_end :: "Scanner \<Rightarrow> nat" where
  "buf_end s \<equiv> start s + length (buf s)"

definition MaxScanTokenSize :: nat where
  "MaxScanTokenSize = 64 * 1024"

definition maxConsecutiveEmptyReads :: nat where
  "maxConsecutiveEmptyReads = 100"

definition startBufSize :: nat where
  "startBufSize = 4096"

definition NewScanner :: "string list \<Rightarrow> Scanner" where
  "NewScanner r = \<lparr>src = r, buf = [], start = 0, buf_len = 2,
                    maxTokenSize = MaxScanTokenSize, scan_err = None\<rparr>"

text \<open>A \<open>Read\<close> into \<open>n\<close> free bytes: the bytes read, whether it returned \<open>io.EOF\<close>, the reader left.\<close>

fun reader_Read :: "nat \<Rightarrow> string list \<Rightarrow> string \<times> bool \<times> string list" where
  "reader_Read n [] = ([], True, [])"
| "reader_Read n (ch # rest) =
     (if length ch \<le> n then (ch, False, rest) else (take n ch, False, drop n ch # rest))"

text \<open>The loop \<open>for loop := 0; ; \<close> of \<open>Scan\<close>, which reads until bytes or an error come.\<close>

function read_loop :: "nat \<Rightarrow> nat \<Rightarrow> string list \<Rightarrow> string \<times> scan_error option \<times> string list" where
  "read_loop loop n r =
     (case reader_Read n r of (bs, eof, r') \<Rightarrow>
        if eof then (bs, Some EOF, r')
        else if length bs > 0 then (bs, None, r')
        else if loop + 1 > maxConsecutiveEmptyReads then (bs, Some ErrNoProgress, r')
        else read_loop (loop + 1) n r')"
  by pat_completeness auto
termination
  by (relation "measure (\<lambda>(loop, n, r). Suc maxConsecutiveEmptyReads - loop)") auto

declare read_loop.simps [simp del]

text \<open>
  The three parts of one turn of the loop of \<open>Scan\<close>: asking \<open>split\<close> for a token on
  the buffered bytes, making room (shifting the bytes to the front, doubling a full
  buffer, \<open>None\<close> when it cannot grow: \<open>ErrTooLong\<close>), and reading.
\<close>

definition try_token :: "Scanner \<Rightarrow> string option \<times> Scanner" where
  "try_token s =
     (if buf_end s > start s \<or> scan_err s \<noteq> None
      then (case split (buf s) (scan_err s \<noteq> None) of (advance, token) \<Rightarrow>
              (token, s\<lparr>buf := drop advance (buf s), start := start s + advance\<rparr>))
      else (None, s))"

definition make_room :: "Scanner \<Rightarrow> Scanner option" where
  "make_room s =
     (let s1 = (if start s > 0 \<and> (buf_end s = buf_len s \<or> start s > buf_len s div 2)
                then s\<lparr>start := 0\<rparr> else s)
      in if buf_end s1 = buf_len s1
         then (if buf_len s1 \<ge> maxTokenSize s1 then None
               else let newSize = (if buf_len s1 * 2 = 0 then startBufSize else buf_len s1 * 2)
                    in Some (s1\<lparr>buf_len := min newSize (maxTokenSize s1), start := 0\<rparr>))
         else Some s1)"

definition fill :: "Scanner \<Rightarrow> Scanner" where
  "fill s =
     (case read_loop 0 (buf_len s - buf_end s) (src s) of (bs, e, r') \<Rightarrow>
        s\<lparr>buf := buf s @ bs, scan_err := e, src := r'\<rparr>)"

text \<open>
  The measure for the termination of \<open>Scan\<close>: every turn that reads either takes bytes
  or a chunk from the reader, or sets the error of the scanner.
\<close>

definition backlog :: "string list \<Rightarrow> nat" where
  "backlog r = (\<Sum>ch\<leftarrow>r. Suc (length ch))"

definition pending :: "Scanner \<Rightarrow> nat" where
  "pending s = 2 * backlog (src s) + (if scan_err s = None then 1 else 0)"

lemma reader_Read_backlog:
  assumes "reader_Read n r = (bs, eof, r')"
  shows "backlog r' \<le> backlog r" and "bs \<noteq> [] \<Longrightarrow> backlog r' < backlog r"
  using assms by (cases r; auto simp: backlog_def split: if_splits)+

lemma read_loop_backlog:
  "read_loop loop n r = (bs, e, r') \<Longrightarrow>
     backlog r' \<le> backlog r \<and> (e = None \<longrightarrow> backlog r' < backlog r)"
proof (induction loop n r arbitrary: bs e r' rule: read_loop.induct)
  case (1 loop n r)
  obtain bs0 eof r0 where rd: "reader_Read n r = (bs0, eof, r0)"
    by (cases "reader_Read n r") auto
  note bl = reader_Read_backlog [OF rd]
  show ?case
  proof (cases "eof \<or> length bs0 > 0 \<or> loop + 1 > maxConsecutiveEmptyReads")
    case True
    with "1.prems" rd bl show ?thesis
      by (subst (asm) read_loop.simps) (auto split: if_splits)
  next
    case False
    with "1.prems" rd have rl: "read_loop (loop + 1) n r0 = (bs, e, r')"
      by (subst (asm) read_loop.simps) auto
    have "backlog r' \<le> backlog r0 \<and> (e = None \<longrightarrow> backlog r' < backlog r0)"
      using False rd rl "1.IH" [of bs0 "(eof, r0)" eof r0 bs e r'] by auto
    with bl(1) show ?thesis by auto
  qed
qed

lemma fill_pending: "scan_err s = None \<Longrightarrow> pending (fill s) < pending s"
proof -
  assume e: "scan_err s = None"
  obtain bs e' r' where rl: "read_loop 0 (buf_len s - buf_end s) (src s) = (bs, e', r')"
    by (cases "read_loop 0 (buf_len s - buf_end s) (src s)") auto
  from read_loop_backlog [OF rl] e rl show ?thesis
    by (auto simp: fill_def pending_def)
qed

lemma try_token_pending: "try_token s = (tok, s') \<Longrightarrow> pending s' = pending s"
  by (auto simp: try_token_def pending_def split: if_splits prod.splits)

lemma make_room_pending: "make_room s = Some s' \<Longrightarrow> pending s' = pending s \<and> scan_err s' = scan_err s"
  by (auto simp: make_room_def pending_def Let_def split: if_splits)

text \<open>
  \<open>Scan\<close>: one call, returning the token (\<open>None\<close> when \<open>Scan\<close> returns false) and the
  scanner after it.
\<close>

function Scan :: "Scanner \<Rightarrow> string option \<times> Scanner" where
  "Scan s =
     (case try_token s of
        (Some token, s1) \<Rightarrow> (Some token, s1)
      | (None, s1) \<Rightarrow>
          if scan_err s1 \<noteq> None then (None, s1\<lparr>start := 0, buf := []\<rparr>)
          else (case make_room s1 of
                  None \<Rightarrow> (None, s1\<lparr>scan_err := Some ErrTooLong\<rparr>)
                | Some s2 \<Rightarrow> Scan (fill s2)))"
  by pat_completeness auto
termination
proof (relation "measure pending", goal_cases)
  case 1
  show ?case by simp
next
  case (2 s tok s1 s2)
  then have "try_token s = (None, s1)" by simp
  then have "pending s1 = pending s" by (rule try_token_pending)
  moreover have "pending s2 = pending s1" "scan_err s2 = None"
    using 2 make_room_pending by auto
  ultimately show ?case
    using fill_pending [of s2] by simp
qed

declare Scan.simps [simp del]


lemma IndexByte_range: "IndexByte xs c \<ge> 0 \<Longrightarrow> nat (IndexByte xs c) < length xs"
  by (induction xs) (auto simp: Let_def split: if_splits)

lemma split_advance:
  "split data atEOF = (advance, Some token) \<Longrightarrow> 0 < advance \<and> advance \<le> length data"
  using IndexByte_range [of data LF] IndexByte_range [of data CR]
  by (auto simp: split_def Let_def split: if_splits)

lemma Scan_progress:
  "Scan s = (Some token, s') \<Longrightarrow>
     pending s' < pending s \<or> (pending s' = pending s \<and> length (buf s') < length (buf s))"
proof (induction s rule: Scan.induct)
  case (1 s)
  obtain tok s1 where tt: "try_token s = (tok, s1)"
    by (cases "try_token s") auto
  show ?case
  proof (cases tok)
    case (Some t)
    with tt "1.prems" have s': "s' = s1" by (subst (asm) Scan.simps) simp
    from tt Some have "length (buf s1) < length (buf s)"
      using split_advance [of "buf s" "scan_err s \<noteq> None"]
      by (auto simp: try_token_def split: if_splits prod.splits)
    with s' try_token_pending [OF tt] show ?thesis by simp
  next
    case None
    with tt "1.prems" obtain s2 where e: "scan_err s1 = None" and mr: "make_room s1 = Some s2"
      and sc: "Scan (fill s2) = (Some token, s')"
      by (subst (asm) Scan.simps) (auto split: if_splits option.splits)
    have "pending s' \<le> pending (fill s2)"
      using "1.IH" [OF tt [symmetric] None _ mr sc] e by auto
    moreover have "pending (fill s2) < pending s"
      using fill_pending [of s2] make_room_pending [OF mr] try_token_pending [OF tt] e by simp
    ultimately show ?thesis by simp
  qed
qed

text \<open>The lines that the loop \<open>for scanner.Scan()\<close> sees, in order.\<close>

function scan_lines :: "Scanner \<Rightarrow> string list" where
  "scan_lines s = (case Scan s of (Some token, s') \<Rightarrow> token # scan_lines s' | (None, s') \<Rightarrow> [])"
  by pat_completeness auto
termination
proof (relation "measures [pending, \<lambda>s. length (buf s)]", goal_cases)
  case 1
  show ?case by simp
next
  case (2 s tok s' token)
  then have "Scan s = (Some token, s')" by simp
  from Scan_progress [OF this] show ?case by auto
qed

declare scan_lines.simps [simp del]

text \<open>The bytes of the stream that no token has consumed yet: buffered or still to be read.\<close>

definition unread :: "Scanner \<Rightarrow> string" where
  "unread s = buf s @ concat (src s)"

text \<open>
  The tokenization as the specification words it, for comparison: a line ends at the
  first line feed or carriage return, and a trailing partial line is a last token.
\<close>

fun spec_lines_from :: "string \<Rightarrow> string \<Rightarrow> string list" where
  "spec_lines_from cur [] = (if cur = [] then [] else [cur])"
| "spec_lines_from cur (c # cs) =
     (if c = LF \<or> c = CR then cur # spec_lines_from [] cs else spec_lines_from (cur @ [c]) cs)"

definition spec_lines :: "string \<Rightarrow> string list" where
  "spec_lines stream = spec_lines_from [] stream"

section \<open>progress\<close>

text \<open>
  Floating point is kept abstract: \<open>'f\<close> is the type of \<open>float64\<close> values and the record
  below holds the operations \<open>progress\<close> uses on it. \<open>DurToSec\<close> is the function of
  package utils; \<open>ParseFloat\<close> is \<open>strconv.ParseFloat(s, 64)\<close>, returning the value and
  whether the string parsed (the error is \<open>nil\<close>); for a string that is not a number the
  value is zero.
\<close>

record 'f float_ops =
  fzero :: 'f
  hundred :: 'f
  fmul :: "'f \<Rightarrow> 'f \<Rightarrow> 'f"
  fdiv :: "'f \<Rightarrow> 'f \<Rightarrow> 'f"
  DurToSec :: "string \<Rightarrow> 'f"
  ParseFloat :: "string \<Rightarrow> 'f \<times> bool"

record 'f Progress =
  FramesProcessed :: string
  CurrentTime :: string
  CurrentBitrate :: string
  Progress :: 'f
  Speed :: string
  Error :: "error option"

text \<open>
  The loop \<open>for j := 0; j < len(f); j++\<close> over the fields of a line; the state is
  \<open>(framesProcessed, currentTime, currentBitrate, currentSpeed)\<close>.
\<close>

fun field_loop ::
  "string list \<Rightarrow> string \<times> string \<times> string \<times> string \<Rightarrow> string \<times> string \<times> string \<times> string" where
  "field_loop [] st = st"
| "field_loop (field # fs) (framesProcessed, currentTime, currentBitrate, currentSpeed) =
     (let fieldSplit = Split field (CHR ''='')
      in if length fieldSplit > 1
         then (let fieldname = Split field (CHR ''='') ! 0;
                   fieldvalue = Split field (CHR ''='') ! 1
               in field_loop fs
                    (if fieldname = ''frame'' then fieldvalue else framesProcessed,
                     if fieldname = ''time'' then fieldvalue else currentTime,
                     if fieldname = ''bitrate'' then fieldvalue else currentBitrate,
                     if fieldname = ''speed'' then fieldvalue else currentSpeed))
         else field_loop fs (framesProcessed, currentTime, currentBitrate, currentSpeed))"

text \<open>
  The body of the loop \<open>for scanner.Scan()\<close> for one line: the events sent on the
  channel. Calling \<open>GetFormat\<close> on a \<open>nil\<close> metadata panics.
\<close>

definition line_events ::
  "'f float_ops \<Rightarrow> ('h, 'c) Transcoder \<Rightarrow> string \<Rightarrow> error + 'f Progress list" where
  "line_events ops t line =
     (if Contains line ''time='' \<and> Contains line ''bitrate=''
      then (let st = drop_space_after_eq line;
                f = Fields st
            in case field_loop f ([], [], [], []) of
                 (framesProcessed, currentTime, currentBitrate, currentSpeed) \<Rightarrow>
                   (let timesec = DurToSec ops currentTime
                    in case metadata t of
                         None \<Rightarrow> Inl NilPanic
                       | Some md \<Rightarrow>
                           (let dursec = fst (ParseFloat ops (Duration md));
                                progress = fdiv ops (fmul ops timesec (hundred ops)) dursec
                            in Inr [\<lparr>FramesProcessed = framesProcessed,
                                     CurrentTime = currentTime,
                                     CurrentBitrate = currentBitrate,
                                     Progress = progress,
                                     Speed = currentSpeed,
                                     Error = None\<rparr>])))
      else Inr [])"

text \<open>
  \<open>progress\<close>: the events sent, in order, and the panic that ended the task, if any.
\<close>

function progress_loop ::
  "'f float_ops \<Rightarrow> ('h, 'c) Transcoder \<Rightarrow> Scanner \<Rightarrow> 'f Progress list \<times> error option" where
  "progress_loop ops t s =
     (case Scan s of
        (None, s') \<Rightarrow> ([], None)
      | (Some line, s') \<Rightarrow>
          (case line_events ops t line of
             Inl e \<Rightarrow> ([], Some e)
           | Inr evs \<Rightarrow> (case progress_loop ops t s' of (rest, e) \<Rightarrow> (evs @ rest, e))))"
  by pat_completeness auto
termination
proof (relation "measures [\<lambda>(ops, t, s). pending s, \<lambda>(ops, t, s). length (buf s)]", goal_cases)
  case 1
  show ?case by simp
next
  case (2 ops t s tok s' line evs)
  then have "Scan s = (Some line, s')" by simp
  from Scan_progress [OF this] show ?case by auto
qed

declare progress_loop.simps [simp del]

definition progress ::
  "'f float_ops \<Rightarrow> ('h, 'c) Transcoder \<Rightarrow> string list \<Rightarrow> 'f Progress list \<times> error option" where
  "progress ops t stream = progress_loop ops t (NewScanner stream)"

text \<open>The events sent for one line, where the body of the loop returns.\<close>

definition sent_for :: "'f float_ops \<Rightarrow> ('h, 'c) Transcoder \<Rightarrow> string \<Rightarrow> 'f Progress list" where
  "sent_for ops t line = (case line_events ops t line of Inl e \<Rightarrow> [] | Inr evs \<Rightarrow> evs)"

section \<open>GetMetadata\<close>

text \<open>
  A command handed to package os/exec: path, arguments, environment, working directory
  and where the diagnostic stream goes.
\<close>

datatype stderr_dest = Discarded | ToStdout | Piped | Buffered

record Cmd =
  Path :: string
  Args :: "string list"
  CmdEnv :: "string list"
  CmdDir :: string
  Stderr :: stderr_dest

text \<open>
  What lies outside the package: the ambient environment (\<open>os.Environ()\<close>), the run of
  the probing executable (whether \<open>cmd.Run\<close> returned no error, and the two captured
  streams), \<open>json.Unmarshal\<close> into the metadata, whether \<open>StderrPipe\<close>, \<open>cmd.Start\<close> and
  \<open>cmd.Wait\<close> succeed, and the reads of the diagnostic stream of the transcoding
  executable that the scanner gets: up to the end of the stream, or up to the moment
  \<open>cmd.Wait\<close> closes the pipe under the scanner.
\<close>

record 'f World =
  environ :: "string list"
  run_probe :: "Cmd \<Rightarrow> bool \<times> string \<times> string"
  unmarshal :: "string \<Rightarrow> Metadata option"
  stderr_pipe_ok :: bool
  start_ok :: "Cmd \<Rightarrow> bool"
  wait_ok :: bool
  stderr_reads :: "string list"
  floats :: "'f float_ops"

text \<open>
  The lines that the loop of \<open>GetMetadata\<close> handles: \<open>bufio.Reader.ReadLine\<close> ends a line
  at a line feed and drops it, with a carriage return just before it; the pieces of a
  line longer than the buffer are put together again by the loop. The last call
  returns no byte and \<open>io.EOF\<close>, and the loop handles that empty line too before it
  stops. \<open>cur\<close> is the line being read.
\<close>

definition dropCR :: "string \<Rightarrow> string" where
  "dropCR l = (if l \<noteq> [] \<and> last l = CR then butlast l else l)"

fun read_lines :: "string \<Rightarrow> string \<Rightarrow> string list" where
  "read_lines cur [] = (if cur = [] then [[]] else [cur, []])"
| "read_lines cur (c # cs) =
     (if c = LF then dropCR cur # read_lines [] cs else read_lines (cur @ [c]) cs)"

text \<open>One turn of the loop, on the state \<open>(hasMetadata, metadata.Infos)\<close>.\<close>

definition scan_line ::
  "bool \<times> (string \<rightharpoonup> string) \<Rightarrow> string \<Rightarrow> bool \<times> (string \<rightharpoonup> string)" where
  "scan_line st raw =
     (case st of (hasMetadata, infos) \<Rightarrow>
        (let line = TrimLeft raw SP
         in if \<not> hasMetadata
            then (if HasPrefix line ''Metadata:'' then (True, infos) else (hasMetadata, infos))
            else (let parts = SplitN2 line (CHR '':'')
                  in if length parts = 2
                     then (let key = TrimRight (parts ! 0) SP
                           in if length key > 0 \<and> key \<noteq> ''Metadata:''
                              then (hasMetadata, infos(key \<mapsto> TrimSpace (parts ! 1)))
                              else (hasMetadata, infos))
                     else (hasMetadata, infos))))"

definition scan_infos :: "string \<Rightarrow> string \<rightharpoonup> string" where
  "scan_infos errb = snd (foldl scan_line (False, Map.empty) (read_lines [] errb))"

definition probe_args :: "string \<Rightarrow> string list" where
  "probe_args inp =
     [''-i'', inp, ''-print_format'', ''json'', ''-show_format'', ''-show_streams'', ''-show_error'']"

text \<open>
  \<open>GetMetadata\<close> returns its result, the transcoder (the metadata is cached on it) and
  the commands it ran.
\<close>

definition GetMetadata ::
  "'f World \<Rightarrow> ('h, 'c) Transcoder \<Rightarrow> (error + Metadata) \<times> ('h, 'c) Transcoder \<times> Cmd list" where
  "GetMetadata w t =
     (if length (FfprobeBinPath (config t)) > 0
      then (let inp = (if inputPipeReader t \<noteq> None then ''pipe:'' else input t);
                cmd = \<lparr>Path = FfprobeBinPath (config t), Args = probe_args inp,
                       CmdEnv = Env (config t) @ environ w, CmdDir = Dir (config t),
                       Stderr = Buffered\<rparr>
            in case run_probe w cmd of (ok, outb, errb) \<Rightarrow>
                 if \<not> ok then (Inl ProbeError, t, [cmd])
                 else (case unmarshal w outb of
                         None \<Rightarrow> (Inl DecodeError, t, [cmd])
                       | Some m \<Rightarrow>
                           (let md = m\<lparr>Infos := scan_infos errb\<rparr>
                            in (Inr md, t\<lparr>metadata := Some md\<rparr>, [cmd]))))
      else (Inl (ConfigurationError ProbeBinaryNotFound), t, []))"

section \<open>Start\<close>

text \<open>
  The channel \<open>Start\<close> returns, described by what the package does with it: the events
  the task running \<open>progress\<close> sends (and the panic that ended it, if any), the events
  the task waiting for the process sends, and whether that task closes the channel
  after them. These are the programs of the two tasks, not what the consumer receives:
  nothing orders the two tasks, and \<open>deliveries\<close> below gives the runs they can have on
  the channel. The error result of a tracked call is the \<open>nil\<close> it holds when the two
  tasks are started.
\<close>

record 'f Channel =
  scanner_sends :: "'f Progress list"
  scanner_panic :: "error option"
  waiter_sends :: "'f Progress list"
  waiter_closes :: bool

text \<open>
  The outcome of a call: the pair \<open>Start\<close> returns (\<open>Inl\<close> the error, with a \<open>nil\<close>
  channel), the transcoder after it, the commands given to the operating system and
  the pipe handles closed by the deferred \<open>closePipes\<close>.
\<close>

record ('f, 'h, 'c) Outcome =
  result :: "error + 'f Channel"
  after :: "('h, 'c) Transcoder"
  launched :: "Cmd list"
  closed :: "'h list"

definition closePipes :: "('h, 'c) Transcoder \<Rightarrow> 'h list" where
  "closePipes t =
     (case inputPipeReader t of None \<Rightarrow> [] | Some r \<Rightarrow> [r]) @
     (case outputPipeWriter t of None \<Rightarrow> [] | Some w \<Rightarrow> [w])"

definition finish ::
  "error + 'f Channel \<Rightarrow> ('h, 'c) Transcoder \<Rightarrow> Cmd list \<Rightarrow> ('f, 'h, 'c) Outcome" where
  "finish r t cmds = \<lparr>result = r, after = t, launched = cmds, closed = closePipes t\<rparr>"

definition error_event :: "'f float_ops \<Rightarrow> error \<Rightarrow> 'f Progress" where
  "error_event ops e =
     \<lparr>FramesProcessed = [], CurrentTime = [], CurrentBitrate = [], Progress = fzero ops,
      Speed = [], Error = Some e\<rparr>"

definition Start ::
  "'f World \<Rightarrow> string list \<Rightarrow> ('h, 'c) Transcoder \<Rightarrow> ('f, 'h, 'c) Outcome" where
  "Start w opts t =
     (case validate t of
        Some err \<Rightarrow> finish (Inl err) t []
      | None \<Rightarrow>
         (case GetMetadata w t of
            (Inl err, t1, cmds) \<Rightarrow> finish (Inl err) t1 cmds
          | (Inr md, t1, cmds) \<Rightarrow>
             (case (case OnMetadata (config t1) of None \<Rightarrow> None | Some f \<Rightarrow> f md) of
                Some err \<Rightarrow> finish (Inl err) t1 cmds
              | None \<Rightarrow>
                 (case build_args (input t1) opts (outputs t1) (options t1) of
                    None \<Rightarrow> finish (Inl IndexPanic) t1 cmds
                  | Some args \<Rightarrow>
                     (let tracked = (ProgressEnabled (config t1) \<and> \<not> Verbose (config t1));
                          cmd = \<lparr>Path = FfmpegBinPath (config t1), Args = args,
                                 CmdEnv = Env (config t1) @ environ w,
                                 CmdDir = Dir (config t1),
                                 Stderr = (if Verbose (config t1) then ToStdout
                                           else if tracked then Piped else Discarded)\<rparr>
                      in if tracked \<and> \<not> stderr_pipe_ok w
                         then finish (Inl StderrPipeError) t1 cmds
                         else if \<not> start_ok w cmd
                         then finish (Inl LaunchError) t1 (cmds @ [cmd])
                         else if tracked
                         then (case progress (floats w) t1 (stderr_reads w) of
                                 (evs, panic) \<Rightarrow>
                                   finish (Inr \<lparr>scanner_sends = evs, scanner_panic = panic,
                                                waiter_sends =
                                                  (if wait_ok w then []
                                                   else [error_event (floats w) ExecutionError]),
                                                waiter_closes = True\<rparr>)
                                     t1 (cmds @ [cmd]))
                         else if \<not> wait_ok w
                         then finish (Inl ExecutionError) t1 (cmds @ [cmd])
                         else finish (Inr \<lparr>scanner_sends = [], scanner_panic = None,
                                          waiter_sends = [], waiter_closes = False\<rparr>)
                                t1 (cmds @ [cmd]))))))"

text \<open>
  The argument lists of the transcoding commands among the commands launched; the probe
  is the command whose diagnostic stream is buffered.
\<close>

definition transcoding_args :: "('f, 'h, 'c) Outcome \<Rightarrow> string list list" where
  "transcoding_args out = map Args (filter (\<lambda>cmd. Stderr cmd \<noteq> Buffered) (launched out))"

text \<open>
  The calls of \<open>Start\<close> that get as far as \<open>cmd.Start()\<close>: validation passes, the probe
  succeeds, the observer (if any) accepts the metadata, and the pipe of the diagnostic
  stream, where one is asked for, can be made.
\<close>

definition reaches_launch :: "'f World \<Rightarrow> ('h, 'c) Transcoder \<Rightarrow> bool" where
  "reaches_launch w t =
     (validate t = None \<and>
      (case fst (GetMetadata w t) of
         Inl err \<Rightarrow> False
       | Inr md \<Rightarrow> (case OnMetadata (config t) of None \<Rightarrow> True | Some f \<Rightarrow> f md = None)) \<and>
      (\<not> (ProgressEnabled (config t) \<and> \<not> Verbose (config t)) \<or> stderr_pipe_ok w))"

text \<open>
  The runs of the two tasks on the unbuffered channel, as the consumer sees them. The
  scanner task sends its events in order; the waiting task sends its events and then
  closes the channel. Nothing in \<open>Start\<close> orders the two tasks, so every interleaving of
  the two programs is a run. A send on the closed channel panics, which ends the run.
\<close>

datatype 'f waiter_action = WSend "'f Progress" | WClose

datatype 'f delivery = Delivered "'f Progress" | Closed | SendOnClosed

fun waiter_step ::
  "'f waiter_action \<Rightarrow> bool \<Rightarrow> (bool \<Rightarrow> 'f delivery list list) \<Rightarrow> 'f delivery list list" where
  "waiter_step (WSend x) is_closed rest =
     (if is_closed then [[SendOnClosed]] else map ((#) (Delivered x)) (rest is_closed))"
| "waiter_step WClose is_closed rest = map ((#) Closed) (rest True)"

fun runs ::
  "'f Progress list \<Rightarrow> 'f waiter_action list \<Rightarrow> bool \<Rightarrow> 'f delivery list list" where
  "runs [] [] is_closed = [[]]"
| "runs (e # ss) [] is_closed =
     (if is_closed then [[SendOnClosed]] else map ((#) (Delivered e)) (runs ss [] is_closed))"
| "runs [] (a # ws) is_closed = waiter_step a is_closed (runs [] ws)"
| "runs (e # ss) (a # ws) is_closed =
     (if is_closed then [[SendOnClosed]]
      else map ((#) (Delivered e)) (runs ss (a # ws) is_closed)) @
     waiter_step a is_closed (runs (e # ss) ws)"

definition deliveries :: "'f Channel \<Rightarrow> 'f delivery list list" where
  "deliveries ch =
     runs (scanner_sends ch)
       (map WSend (waiter_sends ch) @ (if waiter_closes ch then [WClose] else [])) False"

text \<open>
  The one run in which the scanner is done before the waiting task sends and closes.
\<close>

definition orderly_run :: "'f Channel \<Rightarrow> 'f delivery list" where
  "orderly_run ch =
     map Delivered (scanner_sends ch) @ map Delivered (waiter_sends ch) @ [Closed]"

text \<open>
  The value a variable has in the environment of a child process: package os/exec
  keeps, of the entries of \<open>Cmd.Env\<close> with the same key, the last one.
\<close>

fun child_getenv :: "string list \<Rightarrow> string \<Rightarrow> string option" where
  "child_getenv [] k = None"
| "child_getenv (e # es) k =
     (case child_getenv es k of
        Some v \<Rightarrow> Some v
      | None \<Rightarrow> (if HasPrefix e (k @ ''='') then Some (drop (length k + 1) e) else None))"

section \<open>Sample values\<close>

text \<open>Concrete configurations, transcoders and surroundings, used to run the model.\<close>

definition sample_config :: Config where
  "sample_config =
     \<lparr>FfmpegBinPath = ''/usr/bin/ffmpeg'', FfprobeBinPath = ''/usr/bin/ffprobe'',
      ProgressEnabled = False, Verbose = False, Env = [''A=1''], Dir = ''/tmp'',
      OnMetadata = None\<rparr>"

definition sample_transcoder :: "(nat, unit) Transcoder" where
  "sample_transcoder =
     \<lparr>config = sample_config, input = ''in.avi'', outputs = [''out.mp4''], options = [],
      metadata = None, inputPipeReader = None, outputPipeReader = None,
      inputPipeWriter = None, outputPipeWriter = None, commandContext = None\<rparr>"

definition blank_transcoder :: "(nat, unit) Transcoder" where
  "blank_transcoder =
     \<lparr>config = sample_config, input = [], outputs = [], options = [],
      metadata = None, inputPipeReader = None, outputPipeReader = None,
      inputPipeWriter = None, outputPipeWriter = None, commandContext = None\<rparr>"

text \<open>
  Floating point stood in for by the integers: division by zero gives zero, a duration
  parses when it is a single digit.
\<close>

definition sample_floats :: "int float_ops" where
  "sample_floats =
     \<lparr>fzero = 0, hundred = 100, fmul = (\<lambda>a b. a * b), fdiv = (\<lambda>a b. a div b),
      DurToSec = (\<lambda>s. int (length s)),
      ParseFloat = (\<lambda>s. if s = ''8'' then (8, True) else (0, False))\<rparr>"

definition sample_world :: "int World" where
  "sample_world =
     \<lparr>environ = [''A=2'', ''HOME=/root''],
      run_probe = (\<lambda>cmd. (True, ''{}'', [])),
      unmarshal = (\<lambda>s. Some \<lparr>Duration = ''8'', Infos = Map.empty\<rparr>),
      stderr_pipe_ok = True, start_ok = (\<lambda>cmd. True), wait_ok = True,
      stderr_reads = [], floats = sample_floats\<rparr>"

text \<open>Transcoders after a probe, with a duration that parses and with one that does not.\<close>

definition probed_transcoder :: "(nat, unit) Transcoder" where
  "probed_transcoder =
     sample_transcoder\<lparr>metadata := Some \<lparr>Duration = ''8'', Infos = Map.empty\<rparr>\<rparr>"

definition undated_transcoder :: "(nat, unit) Transcoder" where
  "undated_transcoder =
     sample_transcoder\<lparr>metadata := Some \<lparr>Duration = ''N/A'', Infos = Map.empty\<rparr>\<rparr>"

definition sample_line :: string where
  "sample_line = ''frame=   10 time=00:00:05.00 bitrate= 128.0kbits/s speed=1.0x''"

text \<open>
  A call with progress tracking whose diagnostic stream is the sample line, with a
  process that succeeds and with one that fails; a call with two outputs and three
  option-sets; and a probe whose diagnostic stream holds a metadata block.
\<close>

definition tracked_transcoder :: "(nat, unit) Transcoder" where
  "tracked_transcoder = sample_transcoder\<lparr>config := sample_config\<lparr>ProgressEnabled := True\<rparr>\<rparr>"

definition tracked_world :: "int World" where
  "tracked_world = sample_world\<lparr>stderr_reads := [sample_line @ [CR]]\<rparr>"

definition failing_world :: "int World" where
  "failing_world = tracked_world\<lparr>wait_ok := False\<rparr>"

definition sample_event :: "int Progress" where
  "sample_event =
     \<lparr>FramesProcessed = ''10'', CurrentTime = ''00:00:05.00'',
      CurrentBitrate = ''128.0kbits/s'', Progress = 137, Speed = ''1.0x'', Error = None\<rparr>"

definition surplus_transcoder :: "(nat, unit) Transcoder" where
  "surplus_transcoder =
     sample_transcoder\<lparr>outputs := [''a.mp4'', ''b.mp4''],
                        options := [[''-c'', ''x''], [''-b''], [''-r'', ''25'']]\<rparr>"

definition tagged_world :: "int World" where
  "tagged_world =
     sample_world\<lparr>run_probe := (\<lambda>cmd. (True, ''{}'',
        ''Metadata:'' @ [LF] @ ''  title : My Song '' @ [LF] @ ''  artist: Someone'' @ [LF]))\<rparr>"

section \<open>Properties of the setters\<close>

text \<open>
  Claim C10. InputPipe on a transcoder whose input path is non-empty returns the
  transcoder unchanged, and OutputPipe on a transcoder that already has an output
  returns it unchanged; with no input path (no output) the writer and the reader are
  stored in the two input (output) pipe fields and nothing else changes.
\<close>

theorem pipes_frame:
  "(input t \<noteq> [] \<longrightarrow> InputPipe w r t = t) \<and>
   (outputs t \<noteq> [] \<longrightarrow> OutputPipe w r t = t) \<and>
   (input t = [] \<longrightarrow> InputPipe w r t = t\<lparr>inputPipeWriter := w, inputPipeReader := r\<rparr>) \<and>
   (outputs t = [] \<longrightarrow> OutputPipe w r t = t\<lparr>outputPipeWriter := w, outputPipeReader := r\<rparr>)"
  by (simp add: InputPipe_def OutputPipe_def)

theorem pipes_frame_witness:
  "input sample_transcoder \<noteq> [] \<and> outputs sample_transcoder \<noteq> [] \<and>
   InputPipe (Some 1) (Some 2) sample_transcoder = sample_transcoder \<and>
   OutputPipe (Some 1) (Some 2) sample_transcoder = sample_transcoder \<and>
   input blank_transcoder = [] \<and> outputs blank_transcoder = [] \<and>
   inputPipeWriter (InputPipe (Some 1) (Some 2) blank_transcoder) = Some 1 \<and>
   inputPipeReader (InputPipe (Some 1) (Some 2) blank_transcoder) = Some 2 \<and>
   outputPipeWriter (OutputPipe (Some 3) (Some 4) blank_transcoder) = Some 3 \<and>
   outputPipeReader (OutputPipe (Some 3) (Some 4) blank_transcoder) = Some 4"
  using pipes_frame [of sample_transcoder "Some 1" "Some 2"]
    pipes_frame [of blank_transcoder "Some 1" "Some 2"]
    pipes_frame [of blank_transcoder "Some 3" "Some 4"]
  by (simp add: sample_transcoder_def blank_transcoder_def)

section \<open>Properties of the argument assembly\<close>

lemma flush_options_concat:
  "flush_options i arguments args = args @ concat (drop i arguments)"
proof (induction i arguments args rule: flush_options.induct)
  case (1 i arguments args)
  show ?case
  proof (cases "i < length arguments")
    case True
    then have "drop i arguments = arguments ! i # drop (Suc i) arguments"
      by (simp add: Cons_nth_drop_Suc)
    with True 1 show ?thesis
      by (subst flush_options.simps) simp
  next
    case False
    then show ?thesis
      by (subst flush_options.simps) simp
  qed
qed

text \<open>
  With more option-sets than outputs, every output but the last is preceded by its own
  option-set, and the last by all the option-sets from its index on.
\<close>

lemma output_loop_surplus:
  "index + length xs + 1 = n \<Longrightarrow> n < length A \<Longrightarrow>
   output_loop index (xs @ [l]) n A args =
     Some (args @ concat (map2 (\<lambda>a out. a @ [out]) (take (length xs) (drop index A)) xs)
             @ concat (drop (n - 1) A) @ [l])"
proof (induction xs arbitrary: index args)
  case Nil
  then have "n - 1 = index" by simp
  with Nil show ?case by (simp add: flush_options_concat)
next
  case (Cons x xs)
  from Cons.prems have lt: "index < length A" and ne: "int index \<noteq> int n - 1" by auto
  have d: "drop index A = A ! index # drop (Suc index) A"
    using lt by (simp add: Cons_nth_drop_Suc)
  have "output_loop index ((x # xs) @ [l]) n A args =
        output_loop (Suc index) (xs @ [l]) n A (args @ A ! index @ [x])"
    using lt ne by simp
  also have "\<dots> = Some ((args @ A ! index @ [x]) @
        concat (map2 (\<lambda>a out. a @ [out]) (take (length xs) (drop (Suc index) A)) xs)
             @ concat (drop (n - 1) A) @ [l])"
    using Cons.prems by (intro Cons.IH) auto
  finally show ?case by (simp add: d)
qed

text \<open>
  The list built for two outputs and three option-sets, and for any surplus of
  option-sets.
\<close>

lemma build_args_surplus:
  "(build_args inp globals [o0, o1] [s0, s1, s2] =
      Some ([''-i'', inp] @ globals @ s0 @ [o0] @ s1 @ s2 @ [o1])) \<and>
   (outs \<noteq> [] \<and> length outs < length opts \<longrightarrow>
    build_args inp globals outs opts =
      Some ([''-i'', inp] @ globals
            @ concat (map2 (\<lambda>a out. a @ [out]) (take (length outs - 1) opts) (butlast outs))
            @ concat (drop (length outs - 1) opts) @ [last outs]))"
proof -
  have gen: "build_args inp globals outs opts =
      Some ([''-i'', inp] @ globals
            @ concat (map2 (\<lambda>a out. a @ [out]) (take (length outs - 1) opts) (butlast outs))
            @ concat (drop (length outs - 1) opts) @ [last outs])"
    if ne: "outs \<noteq> []" and lt: "length outs < length opts" for outs opts
  proof -
    obtain xs l where outs: "outs = xs @ [l]"
      using ne by (metis append_butlast_last_id)
    have "output_loop 0 (xs @ [l]) (length outs) opts ([''-i'', inp] @ globals) =
       Some (([''-i'', inp] @ globals)
             @ concat (map2 (\<lambda>a out. a @ [out]) (take (length xs) (drop 0 opts)) xs)
             @ concat (drop (length outs - 1) opts) @ [l])"
      using lt outs by (intro output_loop_surplus) auto
    moreover have "opts \<noteq> []" using lt by auto
    ultimately show ?thesis
      using outs by (simp add: build_args_def Let_def)
  qed
  have "build_args inp globals [o0, o1] [s0, s1, s2] =
      Some ([''-i'', inp] @ globals @ s0 @ [o0] @ s1 @ s2 @ [o1])"
    using gen [of "[o0, o1]" "[s0, s1, s2]"] by simp
  with gen show ?thesis by blast
qed

lemma GetMetadata_keeps:
  "GetMetadata w t = (r, t1, cmds) \<Longrightarrow>
     input t1 = input t \<and> outputs t1 = outputs t \<and> options t1 = options t \<and>
     config t1 = config t \<and> filter (\<lambda>cmd. Stderr cmd \<noteq> Buffered) cmds = []"
  by (auto simp: GetMetadata_def Let_def split: if_splits prod.splits option.splits)

lemma output_loop_in_range:
  "index + length rest = n \<Longrightarrow> n \<le> length A \<Longrightarrow> output_loop index rest n A args \<noteq> None"
  by (induction rest arbitrary: index args) auto

lemma validate_build_args:
  "validate t = None \<Longrightarrow> build_args (input t) g (outputs t) (options t) \<noteq> None"
proof -
  assume v: "validate t = None"
  then have "length (outputs t) \<le> length (options t) \<or> length (outputs t) = 1"
    by (auto simp: validate_def Let_def split: if_splits)
  then show ?thesis
  proof
    assume "length (outputs t) \<le> length (options t)"
    then show ?thesis
      using output_loop_in_range [of 0 "outputs t" "length (outputs t)" "options t"]
      by (simp add: build_args_def Let_def)
  next
    assume one: "length (outputs t) = 1"
    show ?thesis
    proof (cases "options t = []")
      case True
      with one show ?thesis by (simp add: build_args_def)
    next
      case False
      then have "length (outputs t) \<le> length (options t)" using one by (cases "options t") auto
      then show ?thesis
        using output_loop_in_range [of 0 "outputs t" "length (outputs t)" "options t"]
        by (simp add: build_args_def Let_def)
    qed
  qed
qed

lemma Start_transcoding_args:
  "transcoding_args (Start w g t) =
     (if reaches_launch w t
      then (case build_args (input t) g (outputs t) (options t) of
              None \<Rightarrow> [] | Some args \<Rightarrow> [args])
      else [])"
proof -
  obtain r t1 cmds where gm: "GetMetadata w t = (r, t1, cmds)"
    by (cases "GetMetadata w t") auto
  note k = GetMetadata_keeps [OF gm]
  show ?thesis
  proof (cases "validate t")
    case (Some e)
    then show ?thesis
      by (simp add: Start_def finish_def transcoding_args_def reaches_launch_def)
  next
    case None
    show ?thesis
    proof (cases r)
      case (Inl e)
      with None gm k show ?thesis
        by (simp add: Start_def finish_def transcoding_args_def reaches_launch_def)
    next
      case (Inr md)
      show ?thesis
      proof (cases "case OnMetadata (config t) of None \<Rightarrow> None | Some f \<Rightarrow> f md")
        case (Some e)
        with None gm k Inr show ?thesis
          by (auto simp: Start_def finish_def transcoding_args_def reaches_launch_def
              split: option.splits)
      next
        case ok: None
        then have obs: "(case OnMetadata (config t) of None \<Rightarrow> True | Some f \<Rightarrow> f md = None)"
          by (auto split: option.splits)
        show ?thesis
        proof (cases "build_args (input t) g (outputs t) (options t)")
          case nb: None
          with None gm k Inr ok show ?thesis
            by (simp add: Start_def finish_def transcoding_args_def)
        next
          case (Some args)
          with None gm k Inr ok obs show ?thesis
            by (auto simp: Start_def finish_def transcoding_args_def reaches_launch_def Let_def
                split: prod.splits)
        qed
      qed
    qed
  qed
qed

text \<open>
  Claim C1. For a request with two outputs and three option-sets, the argument list
  that \<open>Start\<close> builds, and hands to the transcoding command it launches, is \<open>-i\<close>, the
  input, the global tokens, the tokens of option-set 0, the first output, the tokens
  of option-set 1 then those of option-set 2, and the second output. In general, with
  at least one output and strictly more option-sets than outputs, each output but the
  last is preceded by its own option-set, and the last output by every option-set from
  its index on, in order. \<open>Start\<close> launches one transcoding command, with exactly this
  list, when the call gets as far as the launch, and none otherwise.
\<close>

theorem start_args_surplus:
  "(outputs t = [o0, o1] \<and> options t = [s0, s1, s2] \<longrightarrow>
      build_args (input t) g (outputs t) (options t) =
        Some ([''-i'', input t] @ g @ s0 @ [o0] @ s1 @ s2 @ [o1]) \<and>
      transcoding_args (Start w g t) =
        (if reaches_launch w t then [[''-i'', input t] @ g @ s0 @ [o0] @ s1 @ s2 @ [o1]] else [])) \<and>
   (outputs t \<noteq> [] \<and> length (outputs t) < length (options t) \<longrightarrow>
      build_args (input t) g (outputs t) (options t) =
        Some ([''-i'', input t] @ g
              @ concat (map2 (\<lambda>a out. a @ [out]) (take (length (outputs t) - 1) (options t))
                          (butlast (outputs t)))
              @ concat (drop (length (outputs t) - 1) (options t)) @ [last (outputs t)]) \<and>
      transcoding_args (Start w g t) =
        (if reaches_launch w t
         then [[''-i'', input t] @ g
               @ concat (map2 (\<lambda>a out. a @ [out]) (take (length (outputs t) - 1) (options t))
                           (butlast (outputs t)))
               @ concat (drop (length (outputs t) - 1) (options t)) @ [last (outputs t)]]
         else []))"
proof (intro conjI impI)
  assume a: "outputs t = [o0, o1] \<and> options t = [s0, s1, s2]"
  then show b: "build_args (input t) g (outputs t) (options t) =
        Some ([''-i'', input t] @ g @ s0 @ [o0] @ s1 @ s2 @ [o1])"
    using build_args_surplus [of "input t" g o0 o1 s0 s1 s2] by simp
  show "transcoding_args (Start w g t) =
        (if reaches_launch w t then [[''-i'', input t] @ g @ s0 @ [o0] @ s1 @ s2 @ [o1]] else [])"
    by (simp add: Start_transcoding_args b)
next
  assume a: "outputs t \<noteq> [] \<and> length (outputs t) < length (options t)"
  then show b: "build_args (input t) g (outputs t) (options t) =
        Some ([''-i'', input t] @ g
              @ concat (map2 (\<lambda>a out. a @ [out]) (take (length (outputs t) - 1) (options t))
                          (butlast (outputs t)))
              @ concat (drop (length (outputs t) - 1) (options t)) @ [last (outputs t)])"
    using build_args_surplus [of "input t" g _ _ _ _ _ "outputs t" "options t"] by simp
  show "transcoding_args (Start w g t) =
        (if reaches_launch w t
         then [[''-i'', input t] @ g
               @ concat (map2 (\<lambda>a out. a @ [out]) (take (length (outputs t) - 1) (options t))
                           (butlast (outputs t)))
               @ concat (drop (length (outputs t) - 1) (options t)) @ [last (outputs t)]]
         else [])"
    by (simp add: Start_transcoding_args b)
qed

lemma surplus_reaches: "reaches_launch sample_world surplus_transcoder"
  by (simp add: reaches_launch_def validate_def GetMetadata_def Let_def surplus_transcoder_def
      sample_transcoder_def sample_config_def sample_world_def)

theorem start_args_surplus_witness:
  "outputs surplus_transcoder = [''a.mp4'', ''b.mp4''] \<and>
   options surplus_transcoder = [[''-c'', ''x''], [''-b''], [''-r'', ''25'']] \<and>
   outputs surplus_transcoder \<noteq> [] \<and>
   length (outputs surplus_transcoder) < length (options surplus_transcoder) \<and>
   reaches_launch sample_world surplus_transcoder \<and>
   transcoding_args (Start sample_world [''-y''] surplus_transcoder) =
     [[''-i'', ''in.avi'', ''-y'', ''-c'', ''x'', ''a.mp4'', ''-b'', ''-r'', ''25'', ''b.mp4'']]"
proof -
  have o: "outputs surplus_transcoder = [''a.mp4'', ''b.mp4'']"
    "options surplus_transcoder = [[''-c'', ''x''], [''-b''], [''-r'', ''25'']]"
    "input surplus_transcoder = ''in.avi''"
    by (simp_all add: surplus_transcoder_def sample_transcoder_def)
  from start_args_surplus [of surplus_transcoder "''a.mp4''" "''b.mp4''" "[''-c'', ''x'']"
      "[''-b'']" "[''-r'', ''25'']" "[''-y'']" sample_world] o surplus_reaches
  show ?thesis by simp
qed

section \<open>Properties of validation\<close>

lemma empty_output_error:
  "empty_output i outs = Some e \<Longrightarrow> \<exists>j. e = ConfigurationError (EmptyOutput j)"
  by (induction i outs rule: empty_output.induct) (auto split: if_splits)

lemma validate_error: "validate t = Some e \<Longrightarrow> \<exists>c. e = ConfigurationError c"
  by (auto simp: validate_def Let_def split: if_splits dest: empty_output_error)

text \<open>
  Claim C3. When the outputs outnumber the option-sets and there is not exactly one
  output, \<open>validate\<close> returns a configuration error, \<open>Start\<close> returns that error, no
  command (neither the probe nor the transcoding process) has been launched, and the
  transcoder is as it was.
\<close>

theorem start_count_mismatch:
  "length (outputs t) > length (options t) \<and> length (outputs t) \<noteq> 1 \<longrightarrow>
     (\<exists>c. validate t = Some (ConfigurationError c) \<and>
          result (Start w opts t) = Inl (ConfigurationError c)) \<and>
     launched (Start w opts t) = [] \<and>
     after (Start w opts t) = t"
proof
  assume a: "length (outputs t) > length (options t) \<and> length (outputs t) \<noteq> 1"
  then have "validate t \<noteq> None"
    by (auto simp: validate_def Let_def)
  then obtain e where e: "validate t = Some e" by auto
  then obtain c where "e = ConfigurationError c" using validate_error by blast
  with e show "(\<exists>c. validate t = Some (ConfigurationError c) \<and>
          result (Start w opts t) = Inl (ConfigurationError c)) \<and>
     launched (Start w opts t) = [] \<and> after (Start w opts t) = t"
    by (simp add: Start_def finish_def)
qed

theorem start_count_mismatch_witness:
  "length (outputs (Output ''b.mp4'' sample_transcoder))
     > length (options (Output ''b.mp4'' sample_transcoder)) \<and>
   length (outputs (Output ''b.mp4'' sample_transcoder)) \<noteq> 1 \<and>
   result (Start sample_world [] (Output ''b.mp4'' sample_transcoder))
     = Inl (ConfigurationError CountMismatch) \<and>
   launched (Start sample_world [] (Output ''b.mp4'' sample_transcoder)) = []"
  using start_count_mismatch [of "Output ''b.mp4'' sample_transcoder" sample_world "[]"]
  by (simp add: validate_def sample_transcoder_def sample_config_def Output_def)

section \<open>Properties of the environment of the child processes\<close>

lemma GetMetadata_cmds:
  "GetMetadata w t = (r, t1, cmds) \<Longrightarrow>
     config t1 = config t \<and> list_all (\<lambda>cmd. CmdEnv cmd = Env (config t) @ environ w) cmds"
  by (auto simp: GetMetadata_def Let_def split: if_splits prod.splits option.splits)

lemma child_getenv_append:
  "child_getenv (xs @ ys) k =
     (case child_getenv ys k of Some v \<Rightarrow> Some v | None \<Rightarrow> child_getenv xs k)"
  by (induction xs) (auto split: option.splits)

lemma sample_probe:
  "GetMetadata sample_world sample_transcoder =
     (Inr \<lparr>Duration = ''8'', Infos = scan_infos []\<rparr>,
      sample_transcoder\<lparr>metadata := Some \<lparr>Duration = ''8'', Infos = scan_infos []\<rparr>\<rparr>,
      [\<lparr>Path = ''/usr/bin/ffprobe'', Args = probe_args ''in.avi'',
        CmdEnv = [''A=1'', ''A=2'', ''HOME=/root''], CmdDir = ''/tmp'', Stderr = Buffered\<rparr>])"
  by (simp add: GetMetadata_def Let_def sample_world_def sample_transcoder_def sample_config_def)

lemma sample_start:
  "Start sample_world [] sample_transcoder =
     \<lparr>result = Inr \<lparr>scanner_sends = [], scanner_panic = None, waiter_sends = [],
                      waiter_closes = False\<rparr>,
      after = sample_transcoder\<lparr>metadata := Some \<lparr>Duration = ''8'', Infos = scan_infos []\<rparr>\<rparr>,
      launched =
        [\<lparr>Path = ''/usr/bin/ffprobe'', Args = probe_args ''in.avi'',
          CmdEnv = [''A=1'', ''A=2'', ''HOME=/root''], CmdDir = ''/tmp'', Stderr = Buffered\<rparr>,
         \<lparr>Path = ''/usr/bin/ffmpeg'', Args = [''-i'', ''in.avi'', ''out.mp4''],
          CmdEnv = [''A=1'', ''A=2'', ''HOME=/root''], CmdDir = ''/tmp'', Stderr = Discarded\<rparr>],
      closed = []\<rparr>"
proof -
  have v: "validate sample_transcoder = None"
    by (simp add: validate_def sample_transcoder_def sample_config_def)
  show ?thesis
    unfolding Start_def v sample_probe
    by (simp add: finish_def closePipes_def build_args_def Let_def
          sample_transcoder_def sample_config_def sample_world_def)
qed

text \<open>
  Claim C5, as stated, fails: with \<open>A=1\<close> configured and \<open>A=2\<close> in the ambient
  environment, both the probe and the transcoding process see \<open>A=2\<close>.
\<close>

theorem configured_env_overridden:
  "child_getenv (Env (config sample_transcoder)) ''A'' = Some ''1'' \<and>
   child_getenv (environ sample_world) ''A'' = Some ''2'' \<and>
   map (\<lambda>cmd. child_getenv (CmdEnv cmd) ''A'') (launched (Start sample_world [] sample_transcoder))
     = [Some ''2'', Some ''2'']"
  unfolding sample_start
  by (simp add: sample_transcoder_def sample_config_def sample_world_def HasPrefix_def)

text \<open>
  Claim C5, amended. Every command launched by \<open>Start\<close> and by \<open>GetMetadata\<close> gets the
  configured entries followed by the ambient environment; a variable set in the ambient
  environment keeps its ambient value in the child, and the configured value is seen
  only for a variable the ambient environment does not set.
\<close>

theorem child_env_concat:
  "list_all (\<lambda>cmd. CmdEnv cmd = Env (config t) @ environ w) (launched (Start w opts t)) \<and>
   list_all (\<lambda>cmd. CmdEnv cmd = Env (config t) @ environ w) (snd (snd (GetMetadata w t))) \<and>
   child_getenv (Env (config t) @ environ w) k =
     (case child_getenv (environ w) k of
        Some v \<Rightarrow> Some v
      | None \<Rightarrow> child_getenv (Env (config t)) k)"
proof -
  obtain r t1 cmds where g: "GetMetadata w t = (r, t1, cmds)"
    by (cases "GetMetadata w t") auto
  note gm = GetMetadata_cmds [OF g]
  have "list_all (\<lambda>cmd. CmdEnv cmd = Env (config t) @ environ w) (launched (Start w opts t))"
    using g gm
    by (auto simp: Start_def finish_def Let_def split: option.splits sum.splits prod.splits)
  with g gm show ?thesis
    by (simp add: child_getenv_append)
qed

theorem child_env_concat_witness:
  "map CmdEnv (launched (Start sample_world [] sample_transcoder))
     = [[''A=1'', ''A=2'', ''HOME=/root''], [''A=1'', ''A=2'', ''HOME=/root'']] \<and>
   child_getenv ([''A=1''] @ [''A=2'', ''HOME=/root'']) ''A'' = Some ''2''"
  using child_env_concat [of sample_transcoder sample_world "[]" "''A''"]
  unfolding sample_start
  by (simp add: sample_transcoder_def sample_config_def sample_world_def HasPrefix_def)

section \<open>Properties of the channel returned without progress tracking\<close>

text \<open>
  Claim C9, at a call with progress disabled whose process exits with success: \<open>Start\<close>
  returns a channel that no task sends on and that no task closes.
\<close>

theorem start_untracked_channel_open:
  "\<not> (ProgressEnabled (config sample_transcoder) \<and> \<not> Verbose (config sample_transcoder)) \<and>
   result (Start sample_world [] sample_transcoder) =
     Inr \<lparr>scanner_sends = [], scanner_panic = None, waiter_sends = [], waiter_closes = False\<rparr>"
  unfolding sample_start
  by (simp add: sample_transcoder_def sample_config_def)

section \<open>Properties of the textual metadata scan\<close>

lemma IndexByte_first:
  "c \<notin> set k \<Longrightarrow> IndexByte (k @ c # v) c = int (length k)"
  by (induction k) (auto simp: Let_def)

lemma SplitN2_first: "c \<notin> set k \<Longrightarrow> SplitN2 (k @ c # v) c = [k, v]"
  by (simp add: SplitN2_def IndexByte_first)

lemma set_TrimRight: "set (TrimRight k c) \<subseteq> set k"
  unfolding TrimRight_def using set_dropWhileD [of _ "\<lambda>x. x = c" "rev k"] by auto

lemma example_scan:
  "scan_infos (''Metadata:'' @ [LF] @ ''  title : My Song '' @ [LF] @ ''  artist: Someone'' @ [LF])
     = [''title'' \<mapsto> ''My Song'', ''artist'' \<mapsto> ''Someone'']"
proof -
  have rl: "read_lines [] (''Metadata:'' @ [LF] @ ''  title : My Song '' @ [LF] @ ''  artist: Someone'' @ [LF])
      = [''Metadata:'', ''  title : My Song '', ''  artist: Someone'', []]"
    by (simp add: dropCR_def)
  have l1: "scan_line (False, Map.empty) ''Metadata:'' = (True, Map.empty)"
    by (simp add: scan_line_def TrimLeft_def HasPrefix_def)
  have l2: "scan_line (True, m) ''  title : My Song '' = (True, m(''title'' \<mapsto> ''My Song''))" for m
    by (simp add: scan_line_def TrimLeft_def TrimRight_def TrimSpace_def SplitN2_def Let_def
        space_runes_def HasPrefix_def)
  have l3: "scan_line (True, m) ''  artist: Someone'' = (True, m(''artist'' \<mapsto> ''Someone''))" for m
    by (simp add: scan_line_def TrimLeft_def TrimRight_def TrimSpace_def SplitN2_def Let_def
        space_runes_def HasPrefix_def)
  have l4: "scan_line (True, m) [] = (True, m)" for m
    by (simp add: scan_line_def TrimLeft_def SplitN2_def)
  show ?thesis
    unfolding scan_infos_def rl by (simp add: l1 l2 l3 l4)
qed

lemma GetMetadata_scan:
  "FfprobeBinPath (config t) \<noteq> [] \<Longrightarrow> run_probe w = (\<lambda>cmd. (True, outb, errb)) \<Longrightarrow>
   unmarshal w outb = Some m \<Longrightarrow>
     GetMetadata w t = (Inr (m\<lparr>Infos := scan_infos errb\<rparr>),
                        t\<lparr>metadata := Some (m\<lparr>Infos := scan_infos errb\<rparr>)\<rparr>,
                        snd (snd (GetMetadata w t)))"
  by (simp add: GetMetadata_def Let_def)

text \<open>
  Claim C7. When the probe runs and its diagnostic text is \<open>Metadata:\<close>,
  \<open>  title : My Song \<close>, \<open>  artist: Someone\<close> (each line ended by a line feed),
  \<open>GetMetadata\<close> returns, and caches, the decoded metadata with exactly the tag mapping
  of \<open>title\<close> to \<open>My Song\<close> and \<open>artist\<close> to \<open>Someone\<close>; that mapping is what the scan of
  this text yields. After the marker, a line whose left-trimmed text has a non-blank key
  before its first colon is recorded under that key without its trailing spaces, with
  the value trimmed on both sides.
\<close>

theorem probe_scan_example:
  "(FfprobeBinPath (config t) \<noteq> [] \<and>
    run_probe w = (\<lambda>cmd. (True, outb,
       ''Metadata:'' @ [LF] @ ''  title : My Song '' @ [LF] @ ''  artist: Someone'' @ [LF])) \<and>
    unmarshal w outb = Some m \<longrightarrow>
      fst (GetMetadata w t) =
        Inr (m\<lparr>Infos := [''title'' \<mapsto> ''My Song'', ''artist'' \<mapsto> ''Someone'']\<rparr>) \<and>
      metadata (fst (snd (GetMetadata w t))) =
        Some (m\<lparr>Infos := [''title'' \<mapsto> ''My Song'', ''artist'' \<mapsto> ''Someone'']\<rparr>)) \<and>
   scan_infos (''Metadata:'' @ [LF] @ ''  title : My Song '' @ [LF] @ ''  artist: Someone'' @ [LF])
     = [''title'' \<mapsto> ''My Song'', ''artist'' \<mapsto> ''Someone''] \<and>
   (TrimLeft raw SP = k @ CHR '':'' # v \<and> CHR '':'' \<notin> set k \<and> TrimRight k SP \<noteq> [] \<longrightarrow>
      scan_line (True, infos) raw = (True, infos(TrimRight k SP \<mapsto> TrimSpace v)))"
proof (intro conjI impI)
  assume a: "FfprobeBinPath (config t) \<noteq> [] \<and>
    run_probe w = (\<lambda>cmd. (True, outb,
       ''Metadata:'' @ [LF] @ ''  title : My Song '' @ [LF] @ ''  artist: Someone'' @ [LF])) \<and>
    unmarshal w outb = Some m"
  then have f1: "FfprobeBinPath (config t) \<noteq> []"
    and f2: "run_probe w = (\<lambda>cmd. (True, outb,
       ''Metadata:'' @ [LF] @ ''  title : My Song '' @ [LF] @ ''  artist: Someone'' @ [LF]))"
    and f3: "unmarshal w outb = Some m"
    by blast+
  note g = GetMetadata_scan [OF f1 f2 f3, unfolded example_scan]
  show "fst (GetMetadata w t) =
        Inr (m\<lparr>Infos := [''title'' \<mapsto> ''My Song'', ''artist'' \<mapsto> ''Someone'']\<rparr>)"
    by (subst g) simp
  show "metadata (fst (snd (GetMetadata w t))) =
        Some (m\<lparr>Infos := [''title'' \<mapsto> ''My Song'', ''artist'' \<mapsto> ''Someone'']\<rparr>)"
    by (subst g) simp
next
  show "scan_infos (''Metadata:'' @ [LF] @ ''  title : My Song '' @ [LF] @ ''  artist: Someone'' @ [LF])
     = [''title'' \<mapsto> ''My Song'', ''artist'' \<mapsto> ''Someone'']"
    by (rule example_scan)
next
  assume a: "TrimLeft raw SP = k @ CHR '':'' # v \<and> CHR '':'' \<notin> set k \<and> TrimRight k SP \<noteq> []"
  then have "CHR '':'' \<notin> set (TrimRight k SP)" using set_TrimRight by fastforce
  then have "TrimRight k SP \<noteq> ''Metadata:''" by auto
  with a show "scan_line (True, infos) raw = (True, infos(TrimRight k SP \<mapsto> TrimSpace v))"
    by (simp add: scan_line_def SplitN2_first Let_def)
qed

theorem probe_scan_example_witness:
  "FfprobeBinPath (config sample_transcoder) \<noteq> [] \<and>
   unmarshal tagged_world ''{}'' = Some \<lparr>Duration = ''8'', Infos = Map.empty\<rparr> \<and>
   fst (GetMetadata tagged_world sample_transcoder) =
     Inr \<lparr>Duration = ''8'', Infos = [''title'' \<mapsto> ''My Song'', ''artist'' \<mapsto> ''Someone'']\<rparr> \<and>
   TrimLeft ''  title : My Song '' SP = ''title '' @ CHR '':'' # '' My Song '' \<and>
   CHR '':'' \<notin> set ''title '' \<and> TrimRight ''title '' SP \<noteq> [] \<and>
   scan_line (True, Map.empty) ''  title : My Song '' = (True, [''title'' \<mapsto> ''My Song''])"
proof -
  have h1: "FfprobeBinPath (config sample_transcoder) \<noteq> []"
    "run_probe tagged_world = (\<lambda>cmd. (True, ''{}'',
       ''Metadata:'' @ [LF] @ ''  title : My Song '' @ [LF] @ ''  artist: Someone'' @ [LF]))"
    "unmarshal tagged_world ''{}'' = Some \<lparr>Duration = ''8'', Infos = Map.empty\<rparr>"
    by (simp_all add: sample_transcoder_def sample_config_def tagged_world_def sample_world_def)
  have h2: "TrimLeft ''  title : My Song '' SP = ''title '' @ CHR '':'' # '' My Song '' \<and>
   CHR '':'' \<notin> set ''title '' \<and> TrimRight ''title '' SP \<noteq> []"
    by (simp add: TrimLeft_def TrimRight_def)
  have h3: "TrimRight ''title '' SP = ''title''" "TrimSpace '' My Song '' = ''My Song''"
    by (simp_all add: TrimRight_def TrimSpace_def space_runes_def HasPrefix_def)
  from probe_scan_example [of sample_transcoder tagged_world "''{}''"
      "\<lparr>Duration = ''8'', Infos = Map.empty\<rparr>" "''  title : My Song ''" "''title ''"
      "'' My Song ''" Map.empty] h1 h2 h3
  show ?thesis by simp
qed

section \<open>Running the tokenizer\<close>

text \<open>
  Equations that unfold the loops of the scanner one turn at a time, on a scanner and a
  reader that are written out; with them the simplifier runs the tokenizer on a
  concrete stream.
\<close>

lemma read_loop_Nil: "read_loop loop n [] = ([], Some EOF, [])"
  by (simp add: read_loop.simps)

lemma read_loop_Cons:
  "read_loop loop n (ch # rest) =
     (if length ch \<le> n
      then (if ch \<noteq> [] then (ch, None, rest)
            else if loop + 1 > maxConsecutiveEmptyReads then ([], Some ErrNoProgress, rest)
            else read_loop (loop + 1) n rest)
      else (if n > 0 then (take n ch, None, drop n ch # rest)
            else if loop + 1 > maxConsecutiveEmptyReads then ([], Some ErrNoProgress, ch # rest)
            else read_loop (loop + 1) n (ch # rest)))"
  by (subst read_loop.simps) auto

lemma Scan_step:
  "Scan \<lparr>src = r, buf = b, start = st, buf_len = n, maxTokenSize = m, scan_err = e\<rparr> =
     (case try_token \<lparr>src = r, buf = b, start = st, buf_len = n, maxTokenSize = m, scan_err = e\<rparr> of
        (Some token, s1) \<Rightarrow> (Some token, s1)
      | (None, s1) \<Rightarrow>
          if scan_err s1 \<noteq> None then (None, s1\<lparr>start := 0, buf := []\<rparr>)
          else (case make_room s1 of
                  None \<Rightarrow> (None, s1\<lparr>scan_err := Some ErrTooLong\<rparr>)
                | Some s2 \<Rightarrow> Scan (fill s2)))"
  by (rule Scan.simps)

lemma scan_lines_step:
  "scan_lines \<lparr>src = r, buf = b, start = st, buf_len = n, maxTokenSize = m, scan_err = e\<rparr> =
     (case Scan \<lparr>src = r, buf = b, start = st, buf_len = n, maxTokenSize = m, scan_err = e\<rparr> of
        (Some token, s') \<Rightarrow> token # scan_lines s' | (None, s') \<Rightarrow> [])"
  by (rule scan_lines.simps)

lemmas scan_eval = NewScanner_def MaxScanTokenSize_def maxConsecutiveEmptyReads_def
  startBufSize_def scan_lines_step Scan_step try_token_def split_def make_room_def fill_def
  read_loop_Nil read_loop_Cons Let_def

section \<open>Properties of the tokenizer\<close>

lemma IndexByte_takeWhile:
  "IndexByte xs c = (if c \<in> set xs then int (length (takeWhile (\<lambda>x. x \<noteq> c) xs)) else - 1)"
  by (induction xs) (auto simp: Let_def)

lemma take_takeWhile: "take (length (takeWhile P xs)) xs = takeWhile P xs"
  by (induction xs) auto

lemma split_cases:
  "split data atEOF =
     (if LF \<in> set data
      then (Suc (length (takeWhile (\<lambda>x. x \<noteq> LF) data)), Some (takeWhile (\<lambda>x. x \<noteq> LF) data))
      else if CR \<in> set data
      then (Suc (length (takeWhile (\<lambda>x. x \<noteq> CR) data)), Some (takeWhile (\<lambda>x. x \<noteq> CR) data))
      else if atEOF \<and> data \<noteq> [] then (length data, Some data)
      else (0, None))"
  by (auto simp: split_def IndexByte_takeWhile take_takeWhile Let_def)

lemma cut_at:
  "c \<in> set xs \<Longrightarrow> xs = takeWhile (\<lambda>x. x \<noteq> c) xs @ c # drop (Suc (length (takeWhile (\<lambda>x. x \<noteq> c) xs))) xs"
  by (induction xs) auto

lemma reader_Read_concat: "reader_Read n r = (bs, eof, r') \<Longrightarrow> bs @ concat r' = concat r"
  by (cases r) (auto split: if_splits)

lemma read_loop_concat: "read_loop loop n r = (bs, e, r') \<Longrightarrow> bs @ concat r' = concat r"
proof (induction loop n r arbitrary: bs e r' rule: read_loop.induct)
  case (1 loop n r)
  obtain bs0 eof r0 where rd: "reader_Read n r = (bs0, eof, r0)"
    by (cases "reader_Read n r") auto
  note c = reader_Read_concat [OF rd]
  show ?case
  proof (cases "eof \<or> length bs0 > 0 \<or> loop + 1 > maxConsecutiveEmptyReads")
    case True
    with "1.prems" rd c show ?thesis
      by (subst (asm) read_loop.simps) (auto split: if_splits)
  next
    case False
    with "1.prems" rd have rl: "read_loop (loop + 1) n r0 = (bs, e, r')"
      by (subst (asm) read_loop.simps) auto
    have "bs @ concat r' = concat r0"
      using False rd rl "1.IH" [of bs0 "(eof, r0)" eof r0 bs e r'] by auto
    with c False show ?thesis by auto
  qed
qed

lemma unread_fill: "unread (fill s) = unread s"
proof -
  obtain bs e r' where rl: "read_loop 0 (buf_len s - buf_end s) (src s) = (bs, e, r')"
    by (cases "read_loop 0 (buf_len s - buf_end s) (src s)") auto
  from read_loop_concat [OF rl] rl show ?thesis
    by (simp add: fill_def unread_def)
qed

lemma unread_make_room: "make_room s = Some s' \<Longrightarrow> unread s' = unread s"
  by (auto simp: make_room_def unread_def Let_def split: if_splits)

lemma try_token_None: "try_token s = (None, s1) \<Longrightarrow> unread s1 = unread s"
  by (auto simp: try_token_def split_cases unread_def split: if_splits)

lemma try_token_Some:
  assumes "try_token s = (Some tok, s1)"
  shows "(\<exists>rest. unread s = tok @ LF # rest \<and> LF \<notin> set tok \<and> unread s1 = rest) \<or>
         (\<exists>rest. unread s = tok @ CR # rest \<and> LF \<notin> set tok \<and> CR \<notin> set tok \<and> unread s1 = rest) \<or>
         (unread s = tok @ unread s1 \<and> tok \<noteq> [] \<and> LF \<notin> set tok \<and> CR \<notin> set tok \<and>
            buf s1 = [] \<and> scan_err s1 \<noteq> None)"
proof -
  let ?b = "buf s"
  from assms have sp: "snd (split ?b (scan_err s \<noteq> None)) = Some tok"
    and s1: "src s1 = src s" "scan_err s1 = scan_err s"
    and b1: "buf s1 = drop (fst (split ?b (scan_err s \<noteq> None))) ?b"
    by (auto simp: try_token_def split: if_splits prod.splits)
  show ?thesis
  proof (cases "LF \<in> set ?b")
    case True
    with sp have tok: "tok = takeWhile (\<lambda>x. x \<noteq> LF) ?b" by (simp add: split_cases)
    from True b1 have "buf s1 = drop (Suc (length tok)) ?b" by (simp add: split_cases tok)
    with cut_at [OF True] tok have "?b = tok @ LF # buf s1" by simp
    moreover have "LF \<notin> set tok" unfolding tok using set_takeWhileD by fastforce
    ultimately show ?thesis using s1 by (auto simp: unread_def)
  next
    case noLF: False
    show ?thesis
    proof (cases "CR \<in> set ?b")
      case True
      with noLF sp have tok: "tok = takeWhile (\<lambda>x. x \<noteq> CR) ?b" by (simp add: split_cases)
      from True noLF b1 have "buf s1 = drop (Suc (length tok)) ?b" by (simp add: split_cases tok)
      with cut_at [OF True] tok have "?b = tok @ CR # buf s1" by simp
      moreover have "CR \<notin> set tok" unfolding tok using set_takeWhileD by fastforce
      moreover have "LF \<notin> set tok" using noLF tok set_takeWhileD by fastforce
      ultimately show ?thesis using s1 by (auto simp: unread_def)
    next
      case False
      with noLF sp b1 s1 show ?thesis
        by (auto simp: split_cases unread_def split: if_splits)
    qed
  qed
qed

lemma Scan_token:
  "Scan s = (Some tok, s') \<Longrightarrow>
     (\<exists>rest. unread s = tok @ LF # rest \<and> LF \<notin> set tok \<and> unread s' = rest) \<or>
     (\<exists>rest. unread s = tok @ CR # rest \<and> LF \<notin> set tok \<and> CR \<notin> set tok \<and> unread s' = rest) \<or>
     (unread s = tok @ unread s' \<and> tok \<noteq> [] \<and> LF \<notin> set tok \<and> CR \<notin> set tok \<and>
        buf s' = [] \<and> scan_err s' \<noteq> None)"
proof (induction s rule: Scan.induct)
  case (1 s)
  obtain t s1 where tt: "try_token s = (t, s1)"
    by (cases "try_token s") auto
  show ?case
  proof (cases t)
    case (Some t')
    with tt "1.prems" have "t' = tok" "s1 = s'" by (subst (asm) Scan.simps; simp)+
    with tt Some try_token_Some [of s tok s'] show ?thesis by simp
  next
    case None
    with tt "1.prems" obtain s2 where e: "scan_err s1 = None" and mr: "make_room s1 = Some s2"
      and sc: "Scan (fill s2) = (Some tok, s')"
      by (subst (asm) Scan.simps) (auto split: if_splits option.splits)
    have u: "unread (fill s2) = unread s"
      using unread_fill [of s2] unread_make_room [OF mr] try_token_None tt None by simp
    from "1.IH" [OF tt [symmetric] None _ mr sc] e show ?thesis
      unfolding u by simp
  qed
qed

lemma Scan_at_end:
  "scan_err s \<noteq> None \<Longrightarrow> buf s \<noteq> [] \<Longrightarrow> LF \<notin> set (buf s) \<Longrightarrow> CR \<notin> set (buf s) \<Longrightarrow>
     fst (Scan s) = Some (buf s)"
  by (subst Scan.simps) (simp add: try_token_def split_cases)

text \<open>
  Claim C2. A line should end at the first line feed or carriage return, whichever
  comes first. When a carriage return and the line feed after it are buffered together
  the token runs to the line feed and keeps the carriage return: the stream \<open>CR LF\<close> read
  at once gives the single token \<open>CR\<close>, and \<open>ab CR LF\<close> read at once gives the single
  token \<open>ab CR\<close>, where the same bytes read in two pieces give the two tokens \<open>ab\<close> and
  the empty one, as the specification has them.
\<close>

theorem crlf_token_keeps_cr:
  "scan_lines (NewScanner [[CR, LF]]) = [[CR]] \<and>
   spec_lines [CR, LF] = [[], []] \<and>
   scan_lines (NewScanner [''ab'' @ [CR, LF]]) = [''ab'' @ [CR]] \<and>
   scan_lines (NewScanner [''ab'' @ [CR], [LF]]) = [''ab'', []] \<and>
   spec_lines (''ab'' @ [CR, LF]) = [''ab'', []]"
  by (simp add: scan_eval spec_lines_def)

text \<open>
  What the tokenizer does guarantee. On the bytes buffered so far the split function
  cuts at the first line feed if there is one, otherwise at the first carriage return,
  otherwise (at the end of the stream, with bytes left) it returns them all. So every
  token that \<open>Scan\<close> returns is followed in the stream by a line feed and holds none, or
  is followed by a carriage return and holds neither, or is the non-empty rest of the
  buffer at the end of the stream.
\<close>

theorem token_boundaries:
  "split data atEOF =
     (if LF \<in> set data
      then (Suc (length (takeWhile (\<lambda>x. x \<noteq> LF) data)), Some (takeWhile (\<lambda>x. x \<noteq> LF) data))
      else if CR \<in> set data
      then (Suc (length (takeWhile (\<lambda>x. x \<noteq> CR) data)), Some (takeWhile (\<lambda>x. x \<noteq> CR) data))
      else if atEOF \<and> data \<noteq> [] then (length data, Some data)
      else (0, None)) \<and>
   (Scan s = (Some tok, s') \<longrightarrow>
     (\<exists>rest. unread s = tok @ LF # rest \<and> LF \<notin> set tok \<and> unread s' = rest) \<or>
     (\<exists>rest. unread s = tok @ CR # rest \<and> LF \<notin> set tok \<and> CR \<notin> set tok \<and> unread s' = rest) \<or>
     (unread s = tok @ unread s' \<and> tok \<noteq> [] \<and> LF \<notin> set tok \<and> CR \<notin> set tok \<and>
        buf s' = [] \<and> scan_err s' \<noteq> None)) \<and>
   (scan_err e \<noteq> None \<and> buf e \<noteq> [] \<and> LF \<notin> set (buf e) \<and> CR \<notin> set (buf e) \<longrightarrow>
      fst (Scan e) = Some (buf e))"
proof (intro conjI impI)
  show "split data atEOF =
     (if LF \<in> set data
      then (Suc (length (takeWhile (\<lambda>x. x \<noteq> LF) data)), Some (takeWhile (\<lambda>x. x \<noteq> LF) data))
      else if CR \<in> set data
      then (Suc (length (takeWhile (\<lambda>x. x \<noteq> CR) data)), Some (takeWhile (\<lambda>x. x \<noteq> CR) data))
      else if atEOF \<and> data \<noteq> [] then (length data, Some data)
      else (0, None))"
    by (rule split_cases)
next
  assume "Scan s = (Some tok, s')"
  then show "(\<exists>rest. unread s = tok @ LF # rest \<and> LF \<notin> set tok \<and> unread s' = rest) \<or>
     (\<exists>rest. unread s = tok @ CR # rest \<and> LF \<notin> set tok \<and> CR \<notin> set tok \<and> unread s' = rest) \<or>
     (unread s = tok @ unread s' \<and> tok \<noteq> [] \<and> LF \<notin> set tok \<and> CR \<notin> set tok \<and>
        buf s' = [] \<and> scan_err s' \<noteq> None)"
    by (rule Scan_token)
next
  assume "scan_err e \<noteq> None \<and> buf e \<noteq> [] \<and> LF \<notin> set (buf e) \<and> CR \<notin> set (buf e)"
  then show "fst (Scan e) = Some (buf e)"
    by (simp add: Scan_at_end)
qed

theorem token_boundaries_witness:
  "Scan (NewScanner [''ab'' @ [CR, LF], ''cd''])
     = (Some (''ab'' @ [CR]),
        \<lparr>src = [''cd''], buf = [], start = 4, buf_len = 4, maxTokenSize = 65536,
         scan_err = None\<rparr>) \<and>
   unread (NewScanner [''ab'' @ [CR, LF], ''cd'']) = (''ab'' @ [CR]) @ LF # ''cd'' \<and>
   scan_err \<lparr>src = [], buf = ''cd'', start = 0, buf_len = 4, maxTokenSize = 65536,
             scan_err = Some EOF\<rparr> \<noteq> None \<and>
   fst (Scan \<lparr>src = [], buf = ''cd'', start = 0, buf_len = 4, maxTokenSize = 65536,
              scan_err = Some EOF\<rparr>) = Some ''cd''"
proof -
  let ?s = "NewScanner [''ab'' @ [CR, LF], ''cd'']"
  let ?s' = "\<lparr>src = [''cd''], buf = [], start = 4, buf_len = 4, maxTokenSize = 65536,
              scan_err = None\<rparr>"
  let ?e = "\<lparr>src = [], buf = ''cd'', start = 0, buf_len = 4, maxTokenSize = 65536,
             scan_err = Some EOF\<rparr>"
  have sc: "Scan ?s = (Some (''ab'' @ [CR]), ?s')"
    by (simp add: scan_eval)
  have u': "unread ?s' = ''cd''"
    by (simp add: unread_def)
  note tb = token_boundaries [of "[]" False ?s "''ab'' @ [CR]" ?s' ?e]
  from tb sc u' have "unread ?s = (''ab'' @ [CR]) @ LF # ''cd''"
    by auto
  moreover from tb have "fst (Scan ?e) = Some ''cd''"
    by simp
  ultimately show ?thesis using sc by simp
qed

section \<open>Properties of progress\<close>

lemma line_events_total:
  "metadata t \<noteq> None \<Longrightarrow> line_events ops t line = Inr (sent_for ops t line)"
  by (auto simp: sent_for_def line_events_def Let_def split: prod.splits)

lemma progress_loop_lines:
  "metadata t \<noteq> None \<Longrightarrow>
     progress_loop ops t s = (concat (map (sent_for ops t) (scan_lines s)), None)"
proof (induction s rule: scan_lines.induct)
  case (1 s)
  obtain tok s' where sc: "Scan s = (tok, s')" by (cases "Scan s") auto
  show ?case
  proof (cases tok)
    case None
    with sc show ?thesis
      by (subst progress_loop.simps, subst scan_lines.simps) simp
  next
    case (Some line)
    with sc "1.prems" have "progress_loop ops t s' = (concat (map (sent_for ops t) (scan_lines s')), None)"
      using "1.IH" [OF sc [symmetric]] by simp
    with sc Some "1.prems" show ?thesis
      by (subst progress_loop.simps, subst scan_lines.simps) (simp add: line_events_total)
  qed
qed

lemma sample_line_qualifies:
  "Contains sample_line ''time='' \<and> Contains sample_line ''bitrate=''"
  by (simp add: sample_line_def HasPrefix_def)

lemma sample_line_fields:
  "field_loop (Fields (drop_space_after_eq sample_line)) ([], [], [], [])
     = (''10'', ''00:00:05.00'', ''128.0kbits/s'', ''1.0x'')"
  by code_simp

lemma sample_line_events:
  "line_events sample_floats probed_transcoder sample_line =
     Inr [\<lparr>FramesProcessed = ''10'', CurrentTime = ''00:00:05.00'',
           CurrentBitrate = ''128.0kbits/s'', Progress = 137, Speed = ''1.0x'', Error = None\<rparr>]"
  using sample_line_qualifies
  by (simp add: line_events_def sample_line_fields probed_transcoder_def sample_floats_def)

lemma sample_line_events_undated:
  "line_events sample_floats undated_transcoder sample_line =
     Inr [\<lparr>FramesProcessed = ''10'', CurrentTime = ''00:00:05.00'',
           CurrentBitrate = ''128.0kbits/s'', Progress = 0, Speed = ''1.0x'', Error = None\<rparr>]"
  using sample_line_qualifies
  by (simp add: line_events_def sample_line_fields undated_transcoder_def sample_floats_def)

lemma sample_scan:
  "scan_lines (NewScanner [''time=1'' @ [CR], sample_line @ [LF]]) = [''time=1'', sample_line]"
  by (simp add: scan_eval sample_line_def)

text \<open>
  Claim C8. A line without \<open>bitrate=\<close> sends no event. Once the metadata is cached (as
  it is whenever \<open>Start\<close> runs \<open>progress\<close>), the body of the loop sends exactly one event
  for a line that contains both \<open>time=\<close> and \<open>bitrate=\<close> and none for any other line, and
  the events of \<open>progress\<close> are those of the lines of the stream, in order.
\<close>

theorem one_event_per_qualifying_line:
  "(\<not> Contains line ''bitrate='' \<longrightarrow> line_events ops t line = Inr []) \<and>
   (metadata t \<noteq> None \<longrightarrow>
      line_events ops t line = Inr (sent_for ops t line) \<and>
      length (sent_for ops t line) =
        (if Contains line ''time='' \<and> Contains line ''bitrate='' then 1 else 0) \<and>
      progress ops t stream =
        (concat (map (sent_for ops t) (scan_lines (NewScanner stream))), None))"
proof -
  have "length (sent_for ops t line) =
        (if Contains line ''time='' \<and> Contains line ''bitrate='' then 1 else 0)"
    if "metadata t \<noteq> None"
    using that by (auto simp: sent_for_def line_events_def Let_def split: prod.splits)
  then show ?thesis
    by (simp add: line_events_total progress_loop_lines progress_def) (simp add: line_events_def)
qed

theorem one_event_per_qualifying_line_witness:
  "metadata probed_transcoder \<noteq> None \<and> \<not> Contains ''time=1'' ''bitrate='' \<and>
   line_events sample_floats probed_transcoder ''time=1'' = Inr [] \<and>
   length (sent_for sample_floats probed_transcoder sample_line) = 1 \<and>
   progress sample_floats probed_transcoder [''time=1'' @ [CR], sample_line @ [LF]] =
     ([\<lparr>FramesProcessed = ''10'', CurrentTime = ''00:00:05.00'',
        CurrentBitrate = ''128.0kbits/s'', Progress = 137, Speed = ''1.0x'', Error = None\<rparr>], None)"
proof -
  have m: "metadata probed_transcoder \<noteq> None" by (simp add: probed_transcoder_def)
  have nb: "\<not> Contains ''time=1'' ''bitrate=''" by (simp add: HasPrefix_def)
  note a = one_event_per_qualifying_line [of "''time=1''" sample_floats probed_transcoder
      "[''time=1'' @ [CR], sample_line @ [LF]]"]
  note b = one_event_per_qualifying_line [of sample_line sample_floats probed_transcoder "[]"]
  from a nb have e0: "line_events sample_floats probed_transcoder ''time=1'' = Inr []" by blast
  from b m sample_line_qualifies
  have e1: "length (sent_for sample_floats probed_transcoder sample_line) = 1" by simp
  from a m have "progress sample_floats probed_transcoder [''time=1'' @ [CR], sample_line @ [LF]] =
      (concat (map (sent_for sample_floats probed_transcoder)
         (scan_lines (NewScanner [''time=1'' @ [CR], sample_line @ [LF]]))), None)" by blast
  then have "progress sample_floats probed_transcoder [''time=1'' @ [CR], sample_line @ [LF]] =
     ([\<lparr>FramesProcessed = ''10'', CurrentTime = ''00:00:05.00'',
        CurrentBitrate = ''128.0kbits/s'', Progress = 137, Speed = ''1.0x'', Error = None\<rparr>], None)"
    unfolding sample_scan by (simp add: sent_for_def sample_line_events e0)
  with m nb e0 e1 show ?thesis by blast
qed

text \<open>
  Claim C6. When the cached duration does not parse (\<open>ParseFloat\<close> gives zero and an
  error, which the code drops), a qualifying line still sends its one event, without an
  error, whose percentage is the quotient of the time by that zero; and \<open>progress\<close>
  goes on to send the events of all the lines of the stream.
\<close>

theorem unparsed_duration_not_fatal:
  "metadata t = Some md \<and> ParseFloat ops (Duration md) = (fzero ops, False) \<and>
   Contains line ''time='' \<and> Contains line ''bitrate='' \<longrightarrow>
     (\<exists>ev. line_events ops t line = Inr [ev] \<and>
           Progress ev = fdiv ops (fmul ops (DurToSec ops (CurrentTime ev)) (hundred ops)) (fzero ops) \<and>
           Error ev = None) \<and>
     progress ops t stream =
       (concat (map (sent_for ops t) (scan_lines (NewScanner stream))), None)"
  by (auto simp: line_events_def Let_def progress_def progress_loop_lines split: prod.splits)

theorem unparsed_duration_not_fatal_witness:
  "metadata undated_transcoder = Some \<lparr>Duration = ''N/A'', Infos = Map.empty\<rparr> \<and>
   ParseFloat sample_floats ''N/A'' = (fzero sample_floats, False) \<and>
   Contains sample_line ''time='' \<and> Contains sample_line ''bitrate='' \<and>
   line_events sample_floats undated_transcoder sample_line =
     Inr [\<lparr>FramesProcessed = ''10'', CurrentTime = ''00:00:05.00'',
           CurrentBitrate = ''128.0kbits/s'', Progress = 0, Speed = ''1.0x'', Error = None\<rparr>] \<and>
   progress sample_floats undated_transcoder [''time=1'' @ [CR], sample_line @ [LF]] =
     ([\<lparr>FramesProcessed = ''10'', CurrentTime = ''00:00:05.00'',
        CurrentBitrate = ''128.0kbits/s'', Progress = 0, Speed = ''1.0x'', Error = None\<rparr>], None)"
proof -
  have m: "metadata undated_transcoder = Some \<lparr>Duration = ''N/A'', Infos = Map.empty\<rparr>"
    by (simp add: undated_transcoder_def)
  have pf: "ParseFloat sample_floats (Duration \<lparr>Duration = ''N/A'', Infos = Map.empty\<rparr>)
      = (fzero sample_floats, False)"
    by (simp add: sample_floats_def)
  have e0: "line_events sample_floats undated_transcoder ''time=1'' = Inr []"
    by (simp add: line_events_def HasPrefix_def)
  from unparsed_duration_not_fatal [of undated_transcoder "\<lparr>Duration = ''N/A'', Infos = Map.empty\<rparr>"
      sample_floats sample_line "[''time=1'' @ [CR], sample_line @ [LF]]"] m pf sample_line_qualifies
  have "progress sample_floats undated_transcoder [''time=1'' @ [CR], sample_line @ [LF]] =
      (concat (map (sent_for sample_floats undated_transcoder)
         (scan_lines (NewScanner [''time=1'' @ [CR], sample_line @ [LF]]))), None)" by blast
  then have "progress sample_floats undated_transcoder [''time=1'' @ [CR], sample_line @ [LF]] =
     ([\<lparr>FramesProcessed = ''10'', CurrentTime = ''00:00:05.00'',
        CurrentBitrate = ''128.0kbits/s'', Progress = 0, Speed = ''1.0x'', Error = None\<rparr>], None)"
    unfolding sample_scan by (simp add: sent_for_def sample_line_events_undated e0)
  with m pf sample_line_qualifies sample_line_events_undated show ?thesis by simp
qed

section \<open>Properties of the channel of a tracked call\<close>

lemma sample_line_event_for:
  "metadata t = Some md \<Longrightarrow> Duration md = ''8'' \<Longrightarrow>
     line_events sample_floats t sample_line = Inr [sample_event]"
  using sample_line_qualifies
  by (simp add: line_events_def sample_line_fields sample_floats_def sample_event_def)

lemma sample_line_scan: "scan_lines (NewScanner [sample_line @ [CR]]) = [sample_line]"
  by (simp add: scan_eval sample_line_def)

lemma sample_progress:
  "metadata t = Some md \<Longrightarrow> Duration md = ''8'' \<Longrightarrow>
     progress sample_floats t [sample_line @ [CR]] = ([sample_event], None)"
  by (simp add: progress_def progress_loop_lines sample_line_scan sent_for_def
      sample_line_event_for)

lemma tracked_probe:
  "stderr_reads w = stderr_reads tracked_world \<Longrightarrow> environ w = environ tracked_world \<Longrightarrow>
   run_probe w = run_probe tracked_world \<Longrightarrow> unmarshal w = unmarshal tracked_world \<Longrightarrow>
   GetMetadata w tracked_transcoder =
     (Inr \<lparr>Duration = ''8'', Infos = scan_infos []\<rparr>,
      tracked_transcoder\<lparr>metadata := Some \<lparr>Duration = ''8'', Infos = scan_infos []\<rparr>\<rparr>,
      [\<lparr>Path = ''/usr/bin/ffprobe'', Args = probe_args ''in.avi'',
        CmdEnv = [''A=1'', ''A=2'', ''HOME=/root''], CmdDir = ''/tmp'', Stderr = Buffered\<rparr>])"
  by (simp add: GetMetadata_def Let_def tracked_world_def sample_world_def tracked_transcoder_def
      sample_transcoder_def sample_config_def)

lemma tracked_start:
  assumes "stderr_reads w = stderr_reads tracked_world" "environ w = environ tracked_world"
    "run_probe w = run_probe tracked_world" "unmarshal w = unmarshal tracked_world"
    "stderr_pipe_ok w" "start_ok w = (\<lambda>cmd. True)" "floats w = sample_floats"
  shows "result (Start w [] tracked_transcoder) =
     Inr \<lparr>scanner_sends = [sample_event], scanner_panic = None,
          waiter_sends = (if wait_ok w then [] else [error_event sample_floats ExecutionError]),
          waiter_closes = True\<rparr>"
proof -
  have v: "validate tracked_transcoder = None"
    by (simp add: validate_def tracked_transcoder_def sample_transcoder_def sample_config_def)
  have p: "progress sample_floats
      (tracked_transcoder\<lparr>metadata := Some \<lparr>Duration = ''8'', Infos = scan_infos []\<rparr>\<rparr>)
      (stderr_reads w) = ([sample_event], None)"
    using assms(1) by (simp add: sample_progress tracked_world_def)
  show ?thesis
    unfolding Start_def v tracked_probe [OF assms(1-4)]
    using assms(5-7) p
    by (simp add: finish_def build_args_def Let_def tracked_transcoder_def
        sample_transcoder_def sample_config_def)
qed

text \<open>
  Claim C4. The terminal error event should be the last event before the channel is
  closed, with no progress event after it, and on success the channel should be closed
  only once the scanner is done. With progress tracking and one progress line in the
  diagnostic stream, the runs of the channel that \<open>Start\<close> returns are these: on success,
  besides the run that delivers the event and then closes, the run in which the channel
  is closed first and the send of the scanner panics; on failure, besides the orderly
  run, one in which the progress event is delivered after the error event, and one in
  which the channel is closed after the error event and the send of the scanner
  panics.
\<close>

theorem close_races_with_scanner:
  "result (Start tracked_world [] tracked_transcoder) =
     Inr \<lparr>scanner_sends = [sample_event], scanner_panic = None, waiter_sends = [],
          waiter_closes = True\<rparr> \<and>
   deliveries \<lparr>scanner_sends = [sample_event], scanner_panic = None, waiter_sends = [],
               waiter_closes = True\<rparr> =
     [[Delivered sample_event, Closed], [Closed, SendOnClosed]] \<and>
   result (Start failing_world [] tracked_transcoder) =
     Inr \<lparr>scanner_sends = [sample_event], scanner_panic = None,
          waiter_sends = [error_event sample_floats ExecutionError], waiter_closes = True\<rparr> \<and>
   deliveries \<lparr>scanner_sends = [sample_event], scanner_panic = None,
               waiter_sends = [error_event sample_floats ExecutionError],
               waiter_closes = True\<rparr> =
     [[Delivered sample_event, Delivered (error_event sample_floats ExecutionError), Closed],
      [Delivered (error_event sample_floats ExecutionError), Delivered sample_event, Closed],
      [Delivered (error_event sample_floats ExecutionError), Closed, SendOnClosed]]"
proof -
  have a: "result (Start tracked_world [] tracked_transcoder) =
     Inr \<lparr>scanner_sends = [sample_event], scanner_panic = None, waiter_sends = [],
          waiter_closes = True\<rparr>"
    using tracked_start [of tracked_world]
    by (simp add: tracked_world_def sample_world_def)
  have b: "result (Start failing_world [] tracked_transcoder) =
     Inr \<lparr>scanner_sends = [sample_event], scanner_panic = None,
          waiter_sends = [error_event sample_floats ExecutionError], waiter_closes = True\<rparr>"
    using tracked_start [of failing_world]
    by (simp add: failing_world_def tracked_world_def sample_world_def)
  show ?thesis
    unfolding a b by (simp add: deliveries_def)
qed

end
